theory Spec2Isabelle
  imports Complex_Main "HOL-Library.Multiset"
begin

section \<open>Spherical expansion coefficients: a model of \<open>torch_spex/spherical_expansions.py\<close>\<close>

text \<open>
  The theory embeds \<open>get_cartesian_vectors\<close>, \<open>VectorExpansion.forward\<close> and
  \<open>SphericalExpansion.forward\<close>. Integer tensors are lists of \<open>int\<close> (the 64-bit tensors of
  the input are taken within their range; the cast of the sample labels to \<open>np.int32\<close> is
  part of the model), floating-point
  tensors are nested lists of \<open>real\<close> together with their shape (rounding is outside the
  model: sums and products are exact). Every place where Python, NumPy or torch raise is a
  branch returning \<open>Inl\<close> of an \<open>error\<close>.

  The radial basis (\<open>RadialBasis\<close>, not part of the sources at hand) and the spherical
  harmonics (\<open>sphericart\<close>) are parameters of the calculator: functions from their
  arguments to an error or a tensor. The consistency checks that the label container
  (\<open>equistore\<close>) performs on its own are not modelled.
\<close>

subsection \<open>Errors\<close>

datatype error = IndexError | KeyError int | RuntimeError | ValueError | ProviderError

definition bnd :: "error + 'a \<Rightarrow> ('a \<Rightarrow> error + 'b) \<Rightarrow> error + 'b" where
  "bnd m f = (case m of Inl e \<Rightarrow> Inl e | Inr x \<Rightarrow> f x)"

fun mapM :: "('a \<Rightarrow> error + 'b) \<Rightarrow> 'a list \<Rightarrow> error + 'b list" where
  "mapM f [] = Inr []"
| "mapM f (x # xs) = bnd (f x) (\<lambda>y. bnd (mapM f xs) (\<lambda>ys. Inr (y # ys)))"

subsection \<open>Tensors and labels\<close>

record tensor2 =
  shape2 :: "nat \<times> nat"
  rows2 :: "real list list"

record tensor3 =
  shape3 :: "nat \<times> nat \<times> nat"
  rows3 :: "real list list list"

record tensor4 =
  shape4 :: "nat \<times> nat \<times> nat \<times> nat"
  rows4 :: "real list list list list"

text \<open>\<open>Labels\<close>: column names and one row of integers per entry.\<close>

record labels =
  names :: "string list"
  entries :: "int list list"

fun index_of :: "'a list \<Rightarrow> 'a \<Rightarrow> nat" where
  "index_of [] x = 0"
| "index_of (y # ys) x = (if x = y then 0 else Suc (index_of ys x))"

text \<open>\<open>labels["name"]\<close>: the column of that name.\<close>

definition column :: "labels \<Rightarrow> string \<Rightarrow> int list" where
  "column lb name = map (\<lambda>row. row ! index_of (names lb) name) (entries lb)"

record tensor_block =
  block_values :: tensor3
  samples :: labels
  components :: "labels list"
  properties :: labels

record tensor_map =
  keys :: labels
  blocks :: "tensor_block list"

text \<open>The block of Cartesian vectors: the direction vectors with their sample labels.\<close>

record cartesian_block =
  cvalues :: "(real \<times> real \<times> real) list"
  csamples :: labels

subsection \<open>Array primitives\<close>

text \<open>\<open>torch.unique\<close>: the sorted distinct values, their counts, and for every element
  the position of its value among the distinct ones.\<close>

definition unique :: "int list \<Rightarrow> int list" where
  "unique xs = sort (remdups xs)"

definition unique_counts :: "int list \<Rightarrow> int list" where
  "unique_counts xs = map (\<lambda>u. int (count_list xs u)) (unique xs)"

definition unique_inverse :: "int list \<Rightarrow> int list" where
  "unique_inverse xs = map (\<lambda>x. int (index_of (unique xs) x)) xs"

fun cumsum_from :: "int \<Rightarrow> int list \<Rightarrow> int list" where
  "cumsum_from acc [] = []"
| "cumsum_from acc (x # xs) = (acc + x) # cumsum_from (acc + x) xs"

definition cumsum :: "int list \<Rightarrow> int list" where
  "cumsum xs = cumsum_from 0 xs"

text \<open>Indexing a one-dimensional tensor: a negative index counts from the end, an index
  out of range raises.\<close>

definition getitem :: "'a list \<Rightarrow> int \<Rightarrow> error + 'a" where
  "getitem xs i =
     (let n = int (length xs)
      in if 0 \<le> i \<and> i < n then Inr (xs ! nat i)
         else if - n \<le> i \<and> i < 0 then Inr (xs ! nat (n + i))
         else Inl IndexError)"

definition index_tensor :: "'a list \<Rightarrow> int list \<Rightarrow> error + 'a list" where
  "index_tensor xs idx = mapM (getitem xs) idx"

text \<open>An elementwise operation on the leading axis with broadcasting: equal lengths, or one
  of them 1.\<close>

definition broadcast :: "('a \<Rightarrow> 'b \<Rightarrow> 'c) \<Rightarrow> 'a list \<Rightarrow> 'b list \<Rightarrow> error + 'c list" where
  "broadcast f xs ys =
     (if length xs = length ys then Inr (map2 f xs ys)
      else if length ys = 1 then Inr (map (\<lambda>x. f x (hd ys)) xs)
      else if length xs = 1 then Inr (map (f (hd xs)) ys)
      else Inl RuntimeError)"

text \<open>\<open>stack(cols, dim=-1)\<close> of one-dimensional tensors: all of one length, else an error.\<close>

definition stack_last :: "'a list list \<Rightarrow> error \<Rightarrow> error + 'a list list" where
  "stack_last cols err =
     (case cols of
        [] \<Rightarrow> Inl err
      | c # cs \<Rightarrow>
          if \<forall>d \<in> set cs. length d = length c
          then Inr (map (\<lambda>i. map (\<lambda>col. col ! i) cols) [0..<length c])
          else Inl err)"

definition np_repeat :: "'a list \<Rightarrow> nat \<Rightarrow> 'a list" where
  "np_repeat xs k = concat (map (replicate k) xs)"

definition np_tile :: "'a list \<Rightarrow> nat \<Rightarrow> 'a list" where
  "np_tile xs k = concat (replicate k xs)"

definition arange :: "nat \<Rightarrow> int list" where
  "arange n = map int [0..<n]"

text \<open>\<open>reshape\<close> with one inferred dimension \<open>-1\<close>: the known dimensions must have a
  non-zero product that divides the number of elements.\<close>

definition infer_dim :: "nat \<Rightarrow> nat \<Rightarrow> error + nat" where
  "infer_dim known numel =
     (if known = 0 \<or> numel mod known \<noteq> 0 then Inl RuntimeError else Inr (numel div known))"

definition chunks :: "nat \<Rightarrow> nat \<Rightarrow> 'a list \<Rightarrow> 'a list list" where
  "chunks k n xs = map (\<lambda>i. take n (drop (i * n) xs)) [0..<k]"

definition flat3 :: "real list list list \<Rightarrow> real list" where
  "flat3 t = concat (concat t)"

definition flat4 :: "real list list list list \<Rightarrow> real list" where
  "flat4 t = concat (concat (concat t))"

definition reshape3 :: "nat \<Rightarrow> nat \<Rightarrow> real list \<Rightarrow> error + tensor3" where
  "reshape3 a b flat =
     bnd (infer_dim (a * b) (length flat)) (\<lambda>c.
       Inr \<lparr>shape3 = (a, b, c), rows3 = chunks a b (chunks (a * b) c flat)\<rparr>)"

definition reshape4 :: "nat \<Rightarrow> nat \<Rightarrow> nat \<Rightarrow> real list \<Rightarrow> error + tensor4" where
  "reshape4 a b c flat =
     bnd (infer_dim (a * b * c) (length flat)) (\<lambda>d.
       Inr \<lparr>shape4 = (a, b, c, d),
            rows4 = chunks a b (chunks (a * b) c (chunks (a * b * c) d flat))\<rparr>)"

text \<open>\<open>swapaxes(1, 2)\<close> of a four-dimensional tensor.\<close>

definition swapaxes_1_2 :: "tensor4 \<Rightarrow> tensor4" where
  "swapaxes_1_2 t =
     (case shape4 t of (a, b, c, d) \<Rightarrow>
        \<lparr>shape4 = (a, c, b, d),
         rows4 = map (\<lambda>x. map (\<lambda>k. map (\<lambda>j. x ! j ! k) [0..<b]) [0..<c]) (rows4 t)\<rparr>)"

definition zeros3 :: "nat \<Rightarrow> nat \<Rightarrow> nat \<Rightarrow> tensor3" where
  "zeros3 a b c = \<lparr>shape3 = (a, b, c), rows3 = replicate a (replicate b (replicate c 0))\<rparr>"

definition add_row :: "real list list \<Rightarrow> real list list \<Rightarrow> real list list" where
  "add_row x y = map2 (map2 (+)) x y"

text \<open>\<open>self.index_add_(dim=0, index, source)\<close>: row \<open>p\<close> of \<open>source\<close> is added to row
  \<open>index[p]\<close> of \<open>self\<close>, one row after the other.\<close>

fun index_add_rows :: "real list list list \<Rightarrow> (int \<times> real list list) list \<Rightarrow> real list list list" where
  "index_add_rows acc [] = acc"
| "index_add_rows acc ((i, row) # rest) =
     index_add_rows (acc[nat i := add_row (acc ! nat i) row]) rest"

definition index_add :: "tensor3 \<Rightarrow> int list \<Rightarrow> tensor3 \<Rightarrow> error + tensor3" where
  "index_add self index source =
     (if length index \<noteq> fst (shape3 source) \<or> snd (shape3 self) \<noteq> snd (shape3 source)
      then Inl RuntimeError
      else if \<exists>i \<in> set index. i < 0 \<or> int (fst (shape3 self)) \<le> i then Inl IndexError
      else Inr (self\<lparr>rows3 := index_add_rows (rows3 self) (zip index (rows3 source))\<rparr>))"

text \<open>\<open>torch.index_select(t, 0, index)\<close> with non-negative indices.\<close>

definition index_select :: "tensor3 \<Rightarrow> nat list \<Rightarrow> error + tensor3" where
  "index_select t index =
     (if \<exists>i \<in> set index. fst (shape3 t) \<le> i then Inl IndexError
      else Inr \<lparr>shape3 = (length index, snd (shape3 t)),
                rows3 = map (\<lambda>i. rows3 t ! i) index\<rparr>)"

text \<open>\<open>np.where(xs == a)[0]\<close>.\<close>

definition np_where :: "int list \<Rightarrow> int \<Rightarrow> nat list" where
  "np_where xs a = filter (\<lambda>i. xs ! i = a) [0..<length xs]"

text \<open>The cast of an integer to \<open>np.int32\<close> (\<open>np.array(labels, dtype=np.int32)\<close>): the value
  modulo \<open>2 ^ 32\<close> in the range from \<open>- 2 ^ 31\<close> to \<open>2 ^ 31 - 1\<close>; NumPy wraps without
  raising.\<close>

definition to_int32 :: "int \<Rightarrow> int" where
  "to_int32 x = (x + 2147483648) mod 4294967296 - 2147483648"

subsection \<open>Configuration and input batch\<close>

text \<open>The radial basis returns one tensor per degree: of shape \<open>[pairs, n]\<close> in the
  standard mode and of shape \<open>[pairs, pseudo species, n]\<close> in the alchemical mode, where
  the number of pseudo species is the hyper-parameter \<open>"alchemical"\<close>.\<close>

datatype radial_basis =
    Standard "real list \<Rightarrow> labels \<Rightarrow> error + tensor2 list"
  | Alchemical nat "real list \<Rightarrow> labels \<Rightarrow> error + tensor3 list"

text \<open>The field \<open>all_species\<close> is the array of line 85,
  \<open>np.array(all_species, dtype=np.int32)\<close>, as the calculator holds it after its
  construction.\<close>

record calculator =
  all_species :: "int list"
  l_max :: nat
  radial_basis_calculator :: radial_basis
  spherical_harmonics_calculator :: "(real \<times> real \<times> real) list \<Rightarrow> error + tensor2"

fun is_alchemical :: "calculator \<Rightarrow> bool" where
  "is_alchemical c = (case radial_basis_calculator c of Standard _ \<Rightarrow> False | Alchemical _ _ \<Rightarrow> True)"

record batch =
  species :: "int list"
  cell_shifts :: "(int \<times> int \<times> int) list"
  centers :: "int list"
  pairs :: "(int \<times> int) list"
  structure_centers :: "int list"
  structure_pairs :: "int list"
  direction_vectors :: "(real \<times> real \<times> real) list"

subsection \<open>\<open>get_cartesian_vectors\<close>\<close>

text \<open>The offset of every pair (lines 381-386, and again lines 144-149): the counts of
  centers per structure, shifted by one and summed up, read at the position of the pair's
  structure among the distinct structures of \<open>structure_pairs\<close>.\<close>

definition pairs_offset :: "batch \<Rightarrow> error + int list" where
  "pairs_offset b =
     (let centers_count_per_structure = unique_counts (structure_centers b);
          inverse_idx = unique_inverse (structure_pairs b);
          centers_offsets_per_structure = cumsum (0 # butlast centers_count_per_structure)
      in index_tensor centers_offsets_per_structure inverse_idx)"

definition sample_names :: "string list" where
  "sample_names = [''structure'', ''center'', ''neighbor'', ''species_center'',
     ''species_neighbor'', ''cell_x'', ''cell_y'', ''cell_z'']"

definition get_cartesian_vectors :: "batch \<Rightarrow> error + cartesian_block" where
  "get_cartesian_vectors b =
     bnd (pairs_offset b) (\<lambda>po.
     bnd (broadcast (\<lambda>(i, j) off. (i + off, j + off)) (pairs b) po) (\<lambda>shifted_pairs_idx.
     bnd (index_tensor (species b) (map fst shifted_pairs_idx)) (\<lambda>species_center.
     bnd (index_tensor (species b) (map snd shifted_pairs_idx)) (\<lambda>species_neighbor.
     bnd (stack_last
            [structure_pairs b, map fst (pairs b), map snd (pairs b),
             species_center, species_neighbor,
             map fst (cell_shifts b), map (\<lambda>s. fst (snd s)) (cell_shifts b),
             map (\<lambda>s. snd (snd s)) (cell_shifts b)] RuntimeError) (\<lambda>labs.
     Inr \<lparr>cvalues = direction_vectors b,
          csamples = \<lparr>names = sample_names, entries = map (map to_int32) labs\<rparr>\<rparr>)))))"

subsection \<open>\<open>VectorExpansion.forward\<close>\<close>

definition norm3 :: "real \<times> real \<times> real \<Rightarrow> real" where
  "norm3 v = (case v of (x, y, z) \<Rightarrow> sqrt (x * x + y * y + z * z))"

text \<open>The square root is not computed during evaluation: a distance stays the term
  \<open>norm3 v\<close>.\<close>

declare norm3_def [code del]

fun split_sizes :: "'a list \<Rightarrow> nat list \<Rightarrow> 'a list list" where
  "split_sizes row [] = []"
| "split_sizes row (k # ks) = take k row # split_sizes (drop k row) ks"

text \<open>\<open>torch.split(t, sizes, dim=1)\<close>: the sizes must add up to the second dimension.\<close>

definition torch_split :: "tensor2 \<Rightarrow> nat list \<Rightarrow> error + tensor2 list" where
  "torch_split t sizes =
     (if sum_list sizes \<noteq> snd (shape2 t) then Inl RuntimeError
      else Inr (map (\<lambda>l. \<lparr>shape2 = (fst (shape2 t), sizes ! l),
                           rows2 = map (\<lambda>row. split_sizes row sizes ! l) (rows2 t)\<rparr>)
                  [0..<length sizes]))"

definition spherical_harmonics_split_list :: "calculator \<Rightarrow> nat list" where
  "spherical_harmonics_split_list c = map (\<lambda>l. 2 * l + 1) [0..<l_max c + 1]"

text \<open>\<open>radial_basis_l[:, None, :] * spherical_harmonics_l[:, :, None]\<close>.\<close>

definition product_standard :: "tensor2 \<Rightarrow> tensor2 \<Rightarrow> error + tensor3" where
  "product_standard rb sh =
     bnd (broadcast (\<lambda>r s. map (\<lambda>y. map (\<lambda>x. x * y) r) s) (rows2 rb) (rows2 sh)) (\<lambda>rows.
     Inr \<lparr>shape3 = (length rows, snd (shape2 sh), snd (shape2 rb)), rows3 = rows\<rparr>)"

text \<open>\<open>radial_basis_l[:, None, :, :] * spherical_harmonics_l[:, :, None, None]\<close>.\<close>

definition product_alchemical :: "tensor3 \<Rightarrow> tensor2 \<Rightarrow> error + tensor4" where
  "product_alchemical rb sh =
     bnd (broadcast (\<lambda>r s. map (\<lambda>y. map (map (\<lambda>x. x * y)) r) s) (rows3 rb) (rows2 sh)) (\<lambda>rows.
     Inr \<lparr>shape4 = (length rows, snd (shape2 sh), fst (snd (shape3 rb)), snd (snd (shape3 rb))),
          rows4 = rows\<rparr>)"

definition m_components :: "nat \<Rightarrow> labels list" where
  "m_components l = [\<lparr>names = [''m''], entries = map (\<lambda>k. [int k - int l]) [0..<2 * l + 1]\<rparr>]"

definition vector_expansion_block_standard ::
    "labels \<Rightarrow> nat \<Rightarrow> tensor2 \<Rightarrow> tensor2 \<Rightarrow> error + tensor_block" where
  "vector_expansion_block_standard smp l radial_basis_l spherical_harmonics_l =
     bnd (product_standard radial_basis_l spherical_harmonics_l) (\<lambda>vector_expansion_l.
     let n_max_l = snd (snd (shape3 vector_expansion_l)) in
     bnd (reshape3 (fst (shape3 vector_expansion_l)) (2 * l + 1)
            (flat3 (rows3 vector_expansion_l))) (\<lambda>v.
     Inr \<lparr>block_values = v, samples = smp, components = m_components l,
          properties = \<lparr>names = [''n''], entries = map (\<lambda>n. [n]) (arange n_max_l)\<rparr>\<rparr>))"

definition vector_expansion_block_alchemical ::
    "nat \<Rightarrow> labels \<Rightarrow> nat \<Rightarrow> tensor3 \<Rightarrow> tensor2 \<Rightarrow> error + tensor_block" where
  "vector_expansion_block_alchemical n_pseudo_species smp l radial_basis_l spherical_harmonics_l =
     bnd (product_alchemical radial_basis_l spherical_harmonics_l) (\<lambda>vector_expansion_l.
     let n_max_l = snd (snd (snd (shape4 vector_expansion_l))) in
     bnd (stack_last [np_repeat (map uminus (arange n_pseudo_species)) n_max_l,
                      np_tile (arange n_max_l) n_pseudo_species] ValueError) (\<lambda>props.
     bnd (reshape3 (fst (shape4 vector_expansion_l)) (2 * l + 1)
            (flat4 (rows4 vector_expansion_l))) (\<lambda>v.
     Inr \<lparr>block_values = v, samples = smp, components = m_components l,
          properties = \<lparr>names = [''alpha_j'', ''n''], entries = props\<rparr>\<rparr>)))"

definition vector_expansion :: "calculator \<Rightarrow> batch \<Rightarrow> error + tensor_map" where
  "vector_expansion c b =
     bnd (get_cartesian_vectors b) (\<lambda>cartesian_vectors.
     let bare_cartesian_vectors = cvalues cartesian_vectors;
         r = map norm3 bare_cartesian_vectors;
         samples_metadata = csamples cartesian_vectors
     in
     bnd (case radial_basis_calculator c of
            Standard rbc \<Rightarrow>
              bnd (rbc r samples_metadata) (\<lambda>radial_basis.
              bnd (spherical_harmonics_calculator c bare_cartesian_vectors) (\<lambda>sh.
              bnd (torch_split sh (spherical_harmonics_split_list c)) (\<lambda>spherical_harmonics.
              mapM (\<lambda>(l, rb_l, sh_l). vector_expansion_block_standard samples_metadata l rb_l sh_l)
                (zip [0..<length radial_basis] (zip radial_basis spherical_harmonics)))))
          | Alchemical n_pseudo_species rbc \<Rightarrow>
              bnd (rbc r samples_metadata) (\<lambda>radial_basis.
              bnd (spherical_harmonics_calculator c bare_cartesian_vectors) (\<lambda>sh.
              bnd (torch_split sh (spherical_harmonics_split_list c)) (\<lambda>spherical_harmonics.
              mapM (\<lambda>(l, rb_l, sh_l).
                     vector_expansion_block_alchemical n_pseudo_species samples_metadata l rb_l sh_l)
                (zip [0..<length radial_basis] (zip radial_basis spherical_harmonics))))))
       (\<lambda>vector_expansion_blocks.
     Inr \<lparr>keys = \<lparr>names = [''l''],
                  entries = map (\<lambda>l. [int l]) [0..<length vector_expansion_blocks]\<rparr>,
          blocks = vector_expansion_blocks\<rparr>))"

subsection \<open>\<open>SphericalExpansion.forward\<close>\<close>

text \<open>\<open>tmap.block(l=l)\<close>: the block whose key is \<open>l\<close>.\<close>

definition block_l :: "tensor_map \<Rightarrow> nat \<Rightarrow> error + tensor_block" where
  "block_l tm l =
     (let i = index_of (entries (keys tm)) [int l]
      in if i < length (entries (keys tm)) \<and> i < length (blocks tm)
         then Inr (blocks tm ! i) else Inl ValueError)"

text \<open>The dictionary \<open>species_to_index\<close>: built in the order of \<open>all_species\<close>, a later
  entry replacing an earlier one of the same key; a missing key raises.\<close>

definition species_to_index :: "calculator \<Rightarrow> int \<Rightarrow> error + int" where
  "species_to_index c a =
     (case map_of (rev (zip (all_species c) [0..<length (all_species c)])) a of
        None \<Rightarrow> Inl (KeyError a)
      | Some i \<Rightarrow> Inr (int i))"

text \<open>Lines 144-150: \<open>s_i_metadata_to_unique\<close>, the first index of every pair shifted by
  the offset of the pair.\<close>

definition s_i_metadata_to_unique :: "batch \<Rightarrow> error + int list" where
  "s_i_metadata_to_unique b =
     bnd (pairs_offset b) (\<lambda>po. broadcast (+) (map fst (pairs b)) po)"

text \<open>Lines 156-184: the densities of one degree, in the two modes.\<close>

definition densities_l_alchemical :: "nat \<Rightarrow> int list \<Rightarrow> tensor_map \<Rightarrow> nat \<Rightarrow> error + tensor3" where
  "densities_l_alchemical n_centers density_indices expanded_vectors l =
     bnd (block_l expanded_vectors l) (\<lambda>blk.
     let expanded_vectors_l = block_values blk in
     bnd (index_add (zeros3 n_centers (fst (snd (shape3 expanded_vectors_l)))
                       (snd (snd (shape3 expanded_vectors_l))))
            density_indices expanded_vectors_l) (\<lambda>densities_l.
     reshape3 n_centers (2 * l + 1) (flat3 (rows3 densities_l))))"

definition densities_l_standard ::
    "nat \<Rightarrow> nat \<Rightarrow> int list \<Rightarrow> tensor_map \<Rightarrow> nat \<Rightarrow> error + tensor3" where
  "densities_l_standard n_centers n_species density_indices expanded_vectors l =
     bnd (block_l expanded_vectors l) (\<lambda>blk.
     let expanded_vectors_l = block_values blk in
     bnd (index_add (zeros3 (n_centers * n_species) (fst (snd (shape3 expanded_vectors_l)))
                       (snd (snd (shape3 expanded_vectors_l))))
            density_indices expanded_vectors_l) (\<lambda>densities_l.
     bnd (reshape4 n_centers n_species (2 * l + 1) (flat3 (rows3 densities_l))) (\<lambda>t.
     reshape3 n_centers (2 * l + 1) (flat4 (rows4 (swapaxes_1_2 t))))))"

definition density_indices_standard :: "calculator \<Rightarrow> batch \<Rightarrow> labels \<Rightarrow> error + int list" where
  "density_indices_standard c b samples_metadata =
     bnd (s_i_metadata_to_unique b) (\<lambda>s_i.
     bnd (mapM (species_to_index c) (column samples_metadata ''species_neighbor'')) (\<lambda>aj_shifts.
     broadcast (\<lambda>s a. s * int (length (all_species c)) + a) s_i aj_shifts))"

definition densities :: "calculator \<Rightarrow> batch \<Rightarrow> tensor_map \<Rightarrow> error + tensor3 list" where
  "densities c b expanded_vectors =
     bnd (block_l expanded_vectors 0) (\<lambda>blk0.
     let samples_metadata = samples blk0 in
     bnd (stack_last [structure_centers b, centers b] RuntimeError) (\<lambda>unique_s_i_indices.
     let n_species = length (all_species c);
         n_centers = length (centers b)
     in
     if is_alchemical c then
       bnd (s_i_metadata_to_unique b) (\<lambda>density_indices.
       mapM (densities_l_alchemical n_centers density_indices expanded_vectors) [0..<l_max c + 1])
     else
       bnd (density_indices_standard c b samples_metadata) (\<lambda>density_indices.
       mapM (densities_l_standard n_centers n_species density_indices expanded_vectors)
         [0..<l_max c + 1])))"

definition unique_species :: "calculator \<Rightarrow> int list" where
  "unique_species c =
     (case radial_basis_calculator c of
        Standard _ \<Rightarrow> all_species c
      | Alchemical n_pseudo_species _ \<Rightarrow> map uminus (arange n_pseudo_species))"

text \<open>Lines 195-219: the block of the centers of species \<open>a_i\<close> at degree \<open>l\<close>.\<close>

definition block_ai_l ::
    "calculator \<Rightarrow> batch \<Rightarrow> tensor3 \<Rightarrow> tensor_block \<Rightarrow> nat \<Rightarrow> int \<Rightarrow> error + tensor_block" where
  "block_ai_l c b densities_l vectors_l_block l a_i =
     (let vectors_l_block_n = arange (length (remdups (column (properties vectors_l_block) ''n'')));
          where_ai = np_where (species b) a_i
      in
      bnd (index_select densities_l where_ai) (\<lambda>densities_ai_l.
      bnd (stack_last [structure_centers b, centers b] RuntimeError) (\<lambda>unique_s_i_indices.
      bnd (index_tensor unique_s_i_indices (map int where_ai)) (\<lambda>smp.
      bnd (stack_last
             [np_repeat (unique_species c) (length vectors_l_block_n),
              np_tile vectors_l_block_n (length (unique_species c)),
              replicate (snd (snd (shape3 densities_ai_l))) (int l)] ValueError) (\<lambda>props.
      Inr \<lparr>block_values = densities_ai_l,
           samples = \<lparr>names = [''structure'', ''center''], entries = smp\<rparr>,
           components = components vectors_l_block,
           properties = \<lparr>names = [''a1'', ''n1'', ''l1''], entries = props\<rparr>\<rparr>)))))"

definition blocks_l :: "calculator \<Rightarrow> batch \<Rightarrow> tensor3 list \<Rightarrow> tensor_map \<Rightarrow> nat \<Rightarrow> error + tensor_block list" where
  "blocks_l c b dens expanded_vectors l =
     bnd (block_l expanded_vectors l) (\<lambda>vectors_l_block.
     mapM (block_ai_l c b (dens ! l) vectors_l_block l) (all_species c))"

definition key_labels :: "calculator \<Rightarrow> int list list" where
  "key_labels c = concat (map (\<lambda>l. map (\<lambda>a_i. [a_i, int l, 1]) (all_species c)) [0..<l_max c + 1])"

text \<open>Lines 134-229: from the vector expansion to the spherical expansion.\<close>

definition density_aggregator :: "calculator \<Rightarrow> batch \<Rightarrow> tensor_map \<Rightarrow> error + tensor_map" where
  "density_aggregator c b expanded_vectors =
     bnd (densities c b expanded_vectors) (\<lambda>dens.
     bnd (mapM (blocks_l c b dens expanded_vectors) [0..<l_max c + 1]) (\<lambda>bs.
     Inr \<lparr>keys = \<lparr>names = [''a_i'', ''lam'', ''sigma''], entries = key_labels c\<rparr>,
          blocks = concat bs\<rparr>))"

definition forward :: "calculator \<Rightarrow> batch \<Rightarrow> error + tensor_map" where
  "forward c b = bnd (vector_expansion c b) (density_aggregator c b)"

subsection \<open>Well-formed tensors, provider contracts, valid batches\<close>

definition wf2 :: "tensor2 \<Rightarrow> bool" where
  "wf2 t \<longleftrightarrow> length (rows2 t) = fst (shape2 t) \<and> (\<forall>r \<in> set (rows2 t). length r = snd (shape2 t))"

definition wf_rows :: "nat \<Rightarrow> nat \<Rightarrow> real list list list \<Rightarrow> bool" where
  "wf_rows b c rows \<longleftrightarrow> (\<forall>x \<in> set rows. length x = b \<and> (\<forall>y \<in> set x. length y = c))"

definition wf3 :: "tensor3 \<Rightarrow> bool" where
  "wf3 t \<longleftrightarrow> length (rows3 t) = fst (shape3 t) \<and>
     wf_rows (fst (snd (shape3 t))) (snd (snd (shape3 t))) (rows3 t)"

text \<open>What the radial basis returns on a batch, if it returns.\<close>

definition radial_output :: "calculator \<Rightarrow> batch \<Rightarrow> (tensor2 list + tensor3 list) option" where
  "radial_output c b =
     (case get_cartesian_vectors b of
        Inl _ \<Rightarrow> None
      | Inr cv \<Rightarrow>
          (case radial_basis_calculator c of
             Standard rbc \<Rightarrow>
               (case rbc (map norm3 (cvalues cv)) (csamples cv) of
                  Inl _ \<Rightarrow> None | Inr ts \<Rightarrow> Some (Inl ts))
           | Alchemical k rbc \<Rightarrow>
               (case rbc (map norm3 (cvalues cv)) (csamples cv) of
                  Inl _ \<Rightarrow> None | Inr ts \<Rightarrow> Some (Inr ts))))"

text \<open>\<open>n_radial c b l\<close>: the number of radial channels of degree \<open>l\<close>, the last dimension
  of the radial basis's tensor for that degree.\<close>

definition n_radial :: "calculator \<Rightarrow> batch \<Rightarrow> nat \<Rightarrow> nat" where
  "n_radial c b l =
     (case radial_output c b of
        None \<Rightarrow> 0
      | Some (Inl ts) \<Rightarrow> snd (shape2 (ts ! l))
      | Some (Inr ts) \<Rightarrow> snd (snd (shape3 (ts ! l))))"

text \<open>The contract of the radial basis on a batch: if it returns, it returns one
  well-formed tensor per degree, with one row per pair and, in the alchemical mode, the
  configured number of pseudo species.\<close>

definition radial_contract :: "calculator \<Rightarrow> batch \<Rightarrow> bool" where
  "radial_contract c b \<longleftrightarrow>
     (case radial_output c b of
        None \<Rightarrow> True
      | Some (Inl ts) \<Rightarrow>
          length ts = l_max c + 1 \<and>
          (\<forall>t \<in> set ts. wf2 t \<and> fst (shape2 t) = length (direction_vectors b))
      | Some (Inr ts) \<Rightarrow>
          length ts = l_max c + 1 \<and>
          (\<forall>t \<in> set ts. wf3 t \<and> fst (shape3 t) = length (direction_vectors b) \<and>
             fst (snd (shape3 t)) = length (unique_species c)))"

text \<open>The contract of the spherical harmonics: if they return, it is a well-formed tensor
  with one row per direction vector.\<close>

definition harmonics_contract :: "calculator \<Rightarrow> batch \<Rightarrow> bool" where
  "harmonics_contract c b \<longleftrightarrow>
     (case spherical_harmonics_calculator c (direction_vectors b) of
        Inl _ \<Rightarrow> True
      | Inr sh \<Rightarrow> wf2 sh \<and> fst (shape2 sh) = length (direction_vectors b))"

text \<open>The providers return on this batch.\<close>

definition providers_return :: "calculator \<Rightarrow> batch \<Rightarrow> bool" where
  "providers_return c b \<longleftrightarrow>
     radial_output c b \<noteq> None \<and>
     (case spherical_harmonics_calculator c (direction_vectors b) of
        Inl _ \<Rightarrow> False
      | Inr sh \<Rightarrow> snd (shape2 sh) = sum_list (spherical_harmonics_split_list c))"

text \<open>A valid batch: the per-atom tensors have one length, the per-pair tensors have one
  length, every pair belongs to a structure of the batch, and the two atom indices that the
  code computes for a pair are indices of atoms.\<close>

definition valid_batch :: "batch \<Rightarrow> bool" where
  "valid_batch b \<longleftrightarrow>
     length (species b) = length (centers b) \<and>
     length (structure_centers b) = length (centers b) \<and>
     length (cell_shifts b) = length (pairs b) \<and>
     length (structure_pairs b) = length (pairs b) \<and>
     length (direction_vectors b) = length (pairs b) \<and>
     (case pairs_offset b of
        Inl _ \<Rightarrow> False
      | Inr po \<Rightarrow>
          (\<forall>p < length (pairs b).
             0 \<le> fst (pairs b ! p) + po ! p \<and>
             fst (pairs b ! p) + po ! p < int (length (centers b)) \<and>
             0 \<le> snd (pairs b ! p) + po ! p \<and>
             snd (pairs b ! p) + po ! p < int (length (centers b))))"

text \<open>The label \<open>(structure, center)\<close> of the atom at position \<open>i\<close> of the batch.\<close>

definition atom_label :: "batch \<Rightarrow> nat \<Rightarrow> int list" where
  "atom_label b i = [structure_centers b ! i, centers b ! i]"

text \<open>The sample labels that \<open>get_cartesian_vectors\<close> stores for the pair at position
  \<open>p\<close>, with the offsets \<open>po\<close> that the code has computed: the eight entries of lines
  395-402, the two species read at the shifted indices (a negative index counts from the
  end), all cast to \<open>np.int32\<close>.\<close>

definition pair_label :: "batch \<Rightarrow> int list \<Rightarrow> nat \<Rightarrow> int list" where
  "pair_label b po p =
     map to_int32
       [structure_pairs b ! p, fst (pairs b ! p), snd (pairs b ! p),
        species b ! nat ((fst (pairs b ! p) + po ! p) mod int (length (species b))),
        species b ! nat ((snd (pairs b ! p) + po ! p) mod int (length (species b))),
        fst (cell_shifts b ! p), fst (snd (cell_shifts b ! p)), snd (snd (cell_shifts b ! p))]"

text \<open>Reordering the pairs of a batch: position \<open>q\<close> of the new pair tensors holds the
  old pair \<open>perm ! q\<close>.\<close>

definition permute :: "nat list \<Rightarrow> 'a list \<Rightarrow> 'a list" where
  "permute perm xs = map (\<lambda>q. xs ! q) perm"

definition permute_pairs :: "nat list \<Rightarrow> batch \<Rightarrow> batch" where
  "permute_pairs perm b =
     b\<lparr>cell_shifts := permute perm (cell_shifts b),
       pairs := permute perm (pairs b),
       structure_pairs := permute perm (structure_pairs b),
       direction_vectors := permute perm (direction_vectors b)\<rparr>"

definition permute_block :: "nat list \<Rightarrow> tensor_block \<Rightarrow> tensor_block" where
  "permute_block perm blk =
     blk\<lparr>block_values := (block_values blk)\<lparr>rows3 := permute perm (rows3 (block_values blk))\<rparr>,
         samples := (samples blk)\<lparr>entries := permute perm (entries (samples blk))\<rparr>\<rparr>"

definition permute_rows :: "nat list \<Rightarrow> tensor_map \<Rightarrow> tensor_map" where
  "permute_rows perm tm = tm\<lparr>blocks := map (permute_block perm) (blocks tm)\<rparr>"

subsection \<open>Example calculators and batches\<close>

text \<open>A radial basis with one degree and one channel of value 1, spherical harmonics of
  degree 0 with value 1: every Vector Expansion entry is 1, so that a density counts pairs.\<close>

definition unit_radial :: "real list \<Rightarrow> labels \<Rightarrow> error + tensor2 list" where
  "unit_radial r smp = Inr [\<lparr>shape2 = (length r, 1), rows2 = map (\<lambda>_. [1]) r\<rparr>]"

definition unit_radial_alchemical :: "real list \<Rightarrow> labels \<Rightarrow> error + tensor3 list" where
  "unit_radial_alchemical r smp =
     Inr [\<lparr>shape3 = (length r, 2, 1), rows3 = map (\<lambda>_. [[1], [1]]) r\<rparr>]"

definition unit_harmonics :: "(real \<times> real \<times> real) list \<Rightarrow> error + tensor2" where
  "unit_harmonics v = Inr \<lparr>shape2 = (length v, 1), rows2 = map (\<lambda>_. [1]) v\<rparr>"

definition standard_calculator :: calculator where
  "standard_calculator =
     \<lparr>all_species = [1, 8], l_max = 0, radial_basis_calculator = Standard unit_radial,
      spherical_harmonics_calculator = unit_harmonics\<rparr>"

definition alchemical_calculator :: calculator where
  "alchemical_calculator =
     \<lparr>all_species = [1, 8], l_max = 0,
      radial_basis_calculator = Alchemical 2 unit_radial_alchemical,
      spherical_harmonics_calculator = unit_harmonics\<rparr>"

text \<open>A hydrogen molecule alone: two atoms, each the neighbor of the other.\<close>

definition h2_alone :: batch where
  "h2_alone =
     \<lparr>species = [1, 1], cell_shifts = [(0, 0, 0), (0, 0, 0)], centers = [0, 1],
      pairs = [(0, 1), (1, 0)], structure_centers = [0, 0], structure_pairs = [0, 0],
      direction_vectors = [(1, 0, 0), (- 1, 0, 0)]\<rparr>"

text \<open>A batch of two structures: structure 0 is a single oxygen atom without neighbors,
  structure 1 is the hydrogen molecule.\<close>

definition o_then_h2 :: batch where
  "o_then_h2 =
     \<lparr>species = [8, 1, 1], cell_shifts = [(0, 0, 0), (0, 0, 0)], centers = [0, 0, 1],
      pairs = [(0, 1), (1, 0)], structure_centers = [0, 1, 1], structure_pairs = [1, 1],
      direction_vectors = [(1, 0, 0), (- 1, 0, 0)]\<rparr>"

text \<open>The hydrogen molecule followed, in the same structure, by a carbon atom without
  neighbors; carbon is not in the vocabulary of the example calculators.\<close>

definition h2_and_c :: batch where
  "h2_and_c =
     \<lparr>species = [1, 1, 6], cell_shifts = [(0, 0, 0), (0, 0, 0)], centers = [0, 1, 2],
      pairs = [(0, 1), (1, 0)], structure_centers = [0, 0, 0], structure_pairs = [0, 0],
      direction_vectors = [(1, 0, 0), (- 1, 0, 0)]\<rparr>"


text \<open>A single oxygen atom without neighbors: a batch of one structure and no pair.\<close>

definition lone_atom :: batch where
  "lone_atom =
     \<lparr>species = [8], cell_shifts = [], centers = [0], pairs = [], structure_centers = [0],
      structure_pairs = [], direction_vectors = []\<rparr>"

text \<open>A batch of two structures: structure 0 is a single carbon atom without neighbors,
  structure 1 is the hydrogen molecule. Carbon is a center only, never a neighbor.\<close>

definition c_then_h2 :: batch where
  "c_then_h2 =
     \<lparr>species = [6, 1, 1], cell_shifts = [(0, 0, 0), (0, 0, 0)], centers = [0, 0, 1],
      pairs = [(0, 1), (1, 0)], structure_centers = [0, 1, 1], structure_pairs = [1, 1],
      direction_vectors = [(1, 0, 0), (- 1, 0, 0)]\<rparr>"

text \<open>The values of the blocks of a result, in the order of its keys.\<close>

definition block_rows :: "error + tensor_map \<Rightarrow> error + real list list list list" where
  "block_rows r = (case r of Inl e \<Rightarrow> Inl e | Inr tm \<Rightarrow> Inr (map (\<lambda>blk. rows3 (block_values blk)) (blocks tm)))"

definition block_samples :: "error + tensor_map \<Rightarrow> error + int list list list" where
  "block_samples r = (case r of Inl e \<Rightarrow> Inl e | Inr tm \<Rightarrow> Inr (map (\<lambda>blk. entries (samples blk)) (blocks tm)))"

subsection \<open>What the claims speak about\<close>

definition wf_rows4 :: "nat \<Rightarrow> nat \<Rightarrow> nat \<Rightarrow> real list list list list \<Rightarrow> bool" where
  "wf_rows4 b c d rows \<longleftrightarrow> (\<forall>x \<in> set rows. length x = b \<and> wf_rows c d x)"

text \<open>The number of columns of the Vector Expansion block of degree \<open>l\<close>.\<close>

definition n_columns :: "calculator \<Rightarrow> batch \<Rightarrow> nat \<Rightarrow> nat" where
  "n_columns c b l =
     (case radial_basis_calculator c of
        Standard _ \<Rightarrow> n_radial c b l
      | Alchemical k _ \<Rightarrow> k * n_radial c b l)"

text \<open>The spherical harmonics of degree \<open>l\<close> of the direction vector at position \<open>p\<close>.\<close>

definition harmonics_row :: "calculator \<Rightarrow> batch \<Rightarrow> nat \<Rightarrow> nat \<Rightarrow> real list" where
  "harmonics_row c b l p =
     (case spherical_harmonics_calculator c (direction_vectors b) of
        Inl _ \<Rightarrow> []
      | Inr sh \<Rightarrow> split_sizes (rows2 sh ! p) (spherical_harmonics_split_list c) ! l)"

text \<open>The products of the radial basis of pair \<open>p\<close> with the spherical harmonics of pair
  \<open>p\<close>, at degree \<open>l\<close>: one list of columns per order \<open>m\<close>.\<close>

definition pair_expansion :: "calculator \<Rightarrow> batch \<Rightarrow> nat \<Rightarrow> nat \<Rightarrow> real list list" where
  "pair_expansion c b l p =
     (case radial_output c b of
        None \<Rightarrow> []
      | Some (Inl ts) \<Rightarrow>
          map (\<lambda>y. map (\<lambda>x. x * y) (rows2 (ts ! l) ! p)) (harmonics_row c b l p)
      | Some (Inr ts) \<Rightarrow>
          map (\<lambda>y. concat (map (map (\<lambda>x. x * y)) (rows3 (ts ! l) ! p))) (harmonics_row c b l p))"

text \<open>The sum of \<open>f p\<close> over the pair positions \<open>p < n\<close> that \<open>sel\<close> selects.\<close>

definition pair_sum :: "(nat \<Rightarrow> bool) \<Rightarrow> (nat \<Rightarrow> real) \<Rightarrow> nat \<Rightarrow> real" where
  "pair_sum sel f n = sum_list (map f (filter sel [0..<n]))"

text \<open>The updates of a scatter-addition: indices in range, rows of one shape.\<close>

definition wf_updates :: "nat \<Rightarrow> nat \<Rightarrow> nat \<Rightarrow> (int \<times> real list list) list \<Rightarrow> bool" where
  "wf_updates a b c xs \<longleftrightarrow>
     (\<forall>(i, row) \<in> set xs. 0 \<le> i \<and> i < int a \<and> length row = b \<and> (\<forall>u \<in> set row. length u = c))"

text \<open>Two values that the code computes for the pair at position \<open>p\<close> from the offsets
  \<open>po\<close>: the row of the densities that receives the pair (\<open>pairs[:, 0] + pairs_offset\<close>,
  line 150), and the label \<open>species_neighbor\<close> that the Vector Expansion stores for it
  (\<open>species[shifted_pairs_idx[:, 1]]\<close>, line 399, cast to \<open>np.int32\<close>). They are the position of
  the pair's center atom and the species of the pair's neighbor atom only if the offset of
  the pair is the number of atoms in the structures before its own; \<open>center_atom\<close> and
  \<open>neighbor_atom\<close> below do not depend on the offsets.\<close>

definition shifted_center :: "batch \<Rightarrow> int list \<Rightarrow> nat \<Rightarrow> int" where
  "shifted_center b po p = fst (pairs b ! p) + po ! p"

definition species_neighbor_label :: "batch \<Rightarrow> int list \<Rightarrow> nat \<Rightarrow> int" where
  "species_neighbor_label b po p =
     to_int32 (species b ! nat ((snd (pairs b ! p) + po ! p) mod int (length (species b))))"

text \<open>The atoms of a pair, read from the input tensors alone: the pair at position \<open>p\<close>
  belongs to the structure \<open>structure_pairs[p]\<close> and names its center and its neighbor by
  their index inside that structure; \<open>center_atom\<close> and \<open>neighbor_atom\<close> are the positions in
  the batch of the atoms with the labels (structure, center) and (structure, neighbor).\<close>

definition center_atom :: "batch \<Rightarrow> nat \<Rightarrow> nat" where
  "center_atom b p =
     index_of (zip (structure_centers b) (centers b)) (structure_pairs b ! p, fst (pairs b ! p))"

definition neighbor_atom :: "batch \<Rightarrow> nat \<Rightarrow> nat" where
  "neighbor_atom b p =
     index_of (zip (structure_centers b) (centers b)) (structure_pairs b ! p, snd (pairs b ! p))"

text \<open>The pairs that the code adds to the row \<open>ctr\<close> of the densities in the channel
  \<open>s\<close>: the pairs whose shifted center index is \<open>ctr\<close> and, in the standard mode, whose
  stored label \<open>species_neighbor\<close> has the channel \<open>s\<close>.\<close>

definition selects :: "calculator \<Rightarrow> batch \<Rightarrow> int list \<Rightarrow> nat \<Rightarrow> nat \<Rightarrow> nat \<Rightarrow> bool" where
  "selects c b po ctr s p \<longleftrightarrow>
     shifted_center b po p = int ctr \<and>
     (is_alchemical c \<or> species_to_index c (species_neighbor_label b po p) = Inr (int s))"

text \<open>The column of the Vector Expansion that feeds the output column of channel \<open>s\<close>
  and radial index \<open>n\<close>, with \<open>R\<close> radial channels.\<close>

definition source_column :: "calculator \<Rightarrow> nat \<Rightarrow> nat \<Rightarrow> nat \<Rightarrow> nat" where
  "source_column c R s n = (if is_alchemical c then s * R + n else n)"

text \<open>The number of channels of the output: the species of the vocabulary in the
  standard mode, the pseudo species in the alchemical mode.\<close>

definition n_channels :: "calculator \<Rightarrow> nat" where
  "n_channels c =
     (case radial_basis_calculator c of
        Standard _ \<Rightarrow> length (all_species c)
      | Alchemical n_pseudo_species _ \<Rightarrow> n_pseudo_species)"

subsection \<open>Tensors by reference\<close>

text \<open>
  \<open>forward\<close> receives references to its seven input tensors, and the allocations of the
  source (\<open>clone\<close>, \<open>torch.zeros\<close>) create new tensors. A store is the list of the tensors
  allocated so far, a reference is a position in it. The only operations of the source that
  write to an existing tensor are the two \<open>index_add_\<close> of lines 165 and 181; every other
  operation reads its arguments and returns a new tensor, or a view that the source only
  reads: these are the functions of the sections above, applied to the tensors read from
  the store. The radial basis and the spherical harmonics are functions of their
  arguments, as before: they are taken not to write to them. A computation returns its
  result, or the error raised, together with the store it leaves.
\<close>

datatype cell =
    Ints "int list"
  | Pairs "(int \<times> int) list"
  | Shifts "(int \<times> int \<times> int) list"
  | Vectors "(real \<times> real \<times> real) list"
  | Reals tensor3

type_synonym store = "cell list"

type_synonym 'a st = "store \<Rightarrow> (error + 'a) \<times> store"

definition return_st :: "error + 'a \<Rightarrow> 'a st" where
  "return_st r s = (r, s)"

definition bnd_st :: "'a st \<Rightarrow> ('a \<Rightarrow> 'b st) \<Rightarrow> 'b st" where
  "bnd_st m f s = (case m s of (Inl e, s') \<Rightarrow> (Inl e, s') | (Inr x, s') \<Rightarrow> f x s')"

fun mapM_st :: "('a \<Rightarrow> 'b st) \<Rightarrow> 'a list \<Rightarrow> 'b list st" where
  "mapM_st f [] = return_st (Inr [])"
| "mapM_st f (x # xs) =
     bnd_st (f x) (\<lambda>y. bnd_st (mapM_st f xs) (\<lambda>ys. return_st (Inr (y # ys))))"

text \<open>A new tensor gets the next position of the store.\<close>

definition alloc :: "cell \<Rightarrow> nat st" where
  "alloc v s = (Inr (length s), s @ [v])"

definition load :: "nat \<Rightarrow> cell st" where
  "load a s = (if a < length s then Inr (s ! a) else Inl RuntimeError, s)"

definition load_ints :: "nat \<Rightarrow> int list st" where
  "load_ints a =
     bnd_st (load a) (\<lambda>v. return_st (case v of Ints xs \<Rightarrow> Inr xs | _ \<Rightarrow> Inl RuntimeError))"

definition load_pairs :: "nat \<Rightarrow> (int \<times> int) list st" where
  "load_pairs a =
     bnd_st (load a) (\<lambda>v. return_st (case v of Pairs xs \<Rightarrow> Inr xs | _ \<Rightarrow> Inl RuntimeError))"

definition load_shifts :: "nat \<Rightarrow> (int \<times> int \<times> int) list st" where
  "load_shifts a =
     bnd_st (load a) (\<lambda>v. return_st (case v of Shifts xs \<Rightarrow> Inr xs | _ \<Rightarrow> Inl RuntimeError))"

definition load_vectors :: "nat \<Rightarrow> (real \<times> real \<times> real) list st" where
  "load_vectors a =
     bnd_st (load a) (\<lambda>v. return_st (case v of Vectors xs \<Rightarrow> Inr xs | _ \<Rightarrow> Inl RuntimeError))"

definition load_reals :: "nat \<Rightarrow> tensor3 st" where
  "load_reals a =
     bnd_st (load a) (\<lambda>v. return_st (case v of Reals t \<Rightarrow> Inr t | _ \<Rightarrow> Inl RuntimeError))"

text \<open>\<open>t.index_add_(0, index, source)\<close>: the tensor at position \<open>a\<close> of the store is
  replaced by the result of the scatter-addition. When the addition raises, the store is
  left as it was.\<close>

definition index_add_inplace :: "nat \<Rightarrow> int list \<Rightarrow> tensor3 \<Rightarrow> unit st" where
  "index_add_inplace a index source s =
     (if a < length s then
        (case s ! a of
           Reals t \<Rightarrow>
             (case index_add t index source of
                Inl e \<Rightarrow> (Inl e, s)
              | Inr t' \<Rightarrow> (Inr (), s[a := Reals t']))
         | _ \<Rightarrow> (Inl RuntimeError, s))
      else (Inl RuntimeError, s))"

text \<open>The references to the seven arguments of \<open>forward\<close>, and the batch that they hold.\<close>

record batch_refs =
  species_ref :: nat
  cell_shifts_ref :: nat
  centers_ref :: nat
  pairs_ref :: nat
  structure_centers_ref :: nat
  structure_pairs_ref :: nat
  direction_vectors_ref :: nat

definition load_batch :: "batch_refs \<Rightarrow> batch st" where
  "load_batch r =
     bnd_st (load_ints (species_ref r)) (\<lambda>sp.
     bnd_st (load_shifts (cell_shifts_ref r)) (\<lambda>cs.
     bnd_st (load_ints (centers_ref r)) (\<lambda>ce.
     bnd_st (load_pairs (pairs_ref r)) (\<lambda>pa.
     bnd_st (load_ints (structure_centers_ref r)) (\<lambda>sc.
     bnd_st (load_ints (structure_pairs_ref r)) (\<lambda>sp'.
     bnd_st (load_vectors (direction_vectors_ref r)) (\<lambda>dv.
     return_st (Inr \<lparr>species = sp, cell_shifts = cs, centers = ce, pairs = pa,
                     structure_centers = sc, structure_pairs = sp',
                     direction_vectors = dv\<rparr>))))))))"

text \<open>Lines 156-184 with the accumulator in the store: \<open>torch.zeros\<close> allocates it,
  \<open>index_add_\<close> writes to it, and the reshaped tensor is what the accumulator holds after
  the addition.\<close>

definition densities_l_alchemical_st ::
    "nat \<Rightarrow> int list \<Rightarrow> tensor_map \<Rightarrow> nat \<Rightarrow> tensor3 st" where
  "densities_l_alchemical_st n_centers density_indices expanded_vectors l =
     bnd_st (return_st (block_l expanded_vectors l)) (\<lambda>blk.
     let expanded_vectors_l = block_values blk in
     bnd_st (alloc (Reals (zeros3 n_centers (fst (snd (shape3 expanded_vectors_l)))
                             (snd (snd (shape3 expanded_vectors_l)))))) (\<lambda>densities_l.
     bnd_st (index_add_inplace densities_l density_indices expanded_vectors_l) (\<lambda>_.
     bnd_st (load_reals densities_l) (\<lambda>t.
     return_st (reshape3 n_centers (2 * l + 1) (flat3 (rows3 t)))))))"

definition densities_l_standard_st ::
    "nat \<Rightarrow> nat \<Rightarrow> int list \<Rightarrow> tensor_map \<Rightarrow> nat \<Rightarrow> tensor3 st" where
  "densities_l_standard_st n_centers n_species density_indices expanded_vectors l =
     bnd_st (return_st (block_l expanded_vectors l)) (\<lambda>blk.
     let expanded_vectors_l = block_values blk in
     bnd_st (alloc (Reals (zeros3 (n_centers * n_species) (fst (snd (shape3 expanded_vectors_l)))
                             (snd (snd (shape3 expanded_vectors_l)))))) (\<lambda>densities_l.
     bnd_st (index_add_inplace densities_l density_indices expanded_vectors_l) (\<lambda>_.
     bnd_st (load_reals densities_l) (\<lambda>t.
     return_st
       (bnd (reshape4 n_centers n_species (2 * l + 1) (flat3 (rows3 t))) (\<lambda>t4.
        reshape3 n_centers (2 * l + 1) (flat4 (rows4 (swapaxes_1_2 t4)))))))))"

text \<open>Lines 134-184: the clones of lines 136 and 137 are new tensors, which the rest of
  \<open>forward\<close> does not use.\<close>

definition densities_st :: "calculator \<Rightarrow> batch \<Rightarrow> tensor_map \<Rightarrow> tensor3 list st" where
  "densities_st c b expanded_vectors =
     bnd_st (return_st (block_l expanded_vectors 0)) (\<lambda>blk0.
     let samples_metadata = samples blk0 in
     bnd_st (alloc (Ints (structure_centers b))) (\<lambda>s_metadata.
     bnd_st (alloc (Ints (centers b))) (\<lambda>i_metadata.
     bnd_st (return_st (stack_last [structure_centers b, centers b] RuntimeError))
       (\<lambda>unique_s_i_indices.
     let n_species = length (all_species c);
         n_centers = length (centers b)
     in
     if is_alchemical c then
       bnd_st (return_st (s_i_metadata_to_unique b)) (\<lambda>density_indices.
       mapM_st (densities_l_alchemical_st n_centers density_indices expanded_vectors)
         [0..<l_max c + 1])
     else
       bnd_st (return_st (density_indices_standard c b samples_metadata)) (\<lambda>density_indices.
       mapM_st (densities_l_standard_st n_centers n_species density_indices expanded_vectors)
         [0..<l_max c + 1])))))"

text \<open>\<open>SphericalExpansion.forward\<close> on references: the inputs are read from the store, the
  Vector Expansion is computed from them, the densities are accumulated in the store, and
  the blocks are built with the species read again from the store (line 187).\<close>

definition forward_st :: "calculator \<Rightarrow> batch_refs \<Rightarrow> tensor_map st" where
  "forward_st c r =
     bnd_st (load_batch r) (\<lambda>b.
     bnd_st (return_st (vector_expansion c b)) (\<lambda>expanded_vectors.
     bnd_st (densities_st c b expanded_vectors) (\<lambda>dens.
     bnd_st (load_ints (species_ref r)) (\<lambda>ai_new_indices.
     bnd_st (return_st (mapM (blocks_l c (b\<lparr>species := ai_new_indices\<rparr>) dens expanded_vectors)
                          [0..<l_max c + 1])) (\<lambda>bs.
     return_st (Inr \<lparr>keys = \<lparr>names = [''a_i'', ''lam'', ''sigma''], entries = key_labels c\<rparr>,
                     blocks = concat bs\<rparr>))))))"

text \<open>A computation keeps the first \<open>n\<close> tensors of the store.\<close>

definition frame :: "nat \<Rightarrow> 'a st \<Rightarrow> bool" where
  "frame n m \<longleftrightarrow>
     (\<forall>s. n \<le> length s \<longrightarrow> n \<le> length (snd (m s)) \<and> take n (snd (m s)) = take n s)"

text \<open>The store that holds the batch \<open>h2_alone\<close> at the positions 0 to 6.\<close>

definition h2_store :: store where
  "h2_store =
     [Ints (species h2_alone), Shifts (cell_shifts h2_alone), Ints (centers h2_alone),
      Pairs (pairs h2_alone), Ints (structure_centers h2_alone),
      Ints (structure_pairs h2_alone), Vectors (direction_vectors h2_alone)]"

definition h2_refs :: batch_refs where
  "h2_refs =
     \<lparr>species_ref = 0, cell_shifts_ref = 1, centers_ref = 2, pairs_ref = 3,
      structure_centers_ref = 4, structure_pairs_ref = 5, direction_vectors_ref = 6\<rparr>"

section \<open>Properties\<close>

subsection \<open>Errors, chunks and tensors\<close>

lemma bnd_Inr [simp]: "bnd (Inr x) f = f x"
  by (simp add: bnd_def)

lemma bnd_Inl [simp]: "bnd (Inl e) f = Inl e"
  by (simp add: bnd_def)

lemma bnd_eq_Inr: "bnd m f = Inr y \<longleftrightarrow> (\<exists>x. m = Inr x \<and> f x = Inr y)"
  by (cases m) simp_all

lemma mapM_Inr_iff:
  "mapM f xs = Inr ys \<longleftrightarrow> length ys = length xs \<and> (\<forall>i < length xs. f (xs ! i) = Inr (ys ! i))"
proof (induction xs arbitrary: ys)
  case Nil
  then show ?case by auto
next
  case (Cons x xs)
  show ?case
  proof (cases ys)
    case Nil
    then show ?thesis by (auto simp: bnd_eq_Inr)
  next
    case (Cons y ys')
    then show ?thesis
      using Cons.IH [of ys'] by (auto simp: bnd_eq_Inr nth_Cons split: nat.splits)
  qed
qed

lemma mapM_total:
  "(\<And>x. x \<in> set xs \<Longrightarrow> \<exists>y. f x = Inr y) \<Longrightarrow> \<exists>ys. mapM f xs = Inr ys"
proof (induction xs)
  case Nil
  then show ?case by simp
next
  case (Cons x xs)
  then obtain y where "f x = Inr y" by force
  moreover from Cons obtain ys where "mapM f xs = Inr ys" by force
  ultimately show ?case by simp
qed

lemma mapM_Inl:
  "x \<in> set xs \<Longrightarrow> f x = Inl e \<Longrightarrow> \<exists>e'. mapM f xs = Inl e'"
proof (induction xs)
  case Nil
  then show ?case by simp
next
  case (Cons a xs)
  then show ?case
    by (cases "f a"; cases "mapM f xs") auto
qed

lemma length_concat_uniform:
  "(\<And>x. x \<in> set xss \<Longrightarrow> length x = n) \<Longrightarrow> length (concat xss) = length xss * n"
  by (induction xss) auto

lemma take_drop_concat_uniform:
  "(\<And>x. x \<in> set xss \<Longrightarrow> length x = n) \<Longrightarrow> i < length xss \<Longrightarrow>
     take n (drop (i * n) (concat xss)) = xss ! i"
proof (induction xss arbitrary: i)
  case Nil
  then show ?case by simp
next
  case (Cons a xss)
  show ?case
  proof (cases i)
    case 0
    with Cons.prems show ?thesis by simp
  next
    case (Suc k)
    with Cons.prems have "take n (drop (k * n) (concat xss)) = xss ! k"
      by (intro Cons.IH) auto
    moreover have "length a = n" using Cons.prems by simp
    ultimately show ?thesis using Suc by (simp add: add.commute)
  qed
qed

lemma chunks_concat:
  assumes "\<And>x. x \<in> set xss \<Longrightarrow> length x = n"
  shows "chunks (length xss) n (concat xss) = xss"
proof (rule nth_equalityI)
  show "length (chunks (length xss) n (concat xss)) = length xss"
    by (simp add: chunks_def)
next
  fix i assume "i < length (chunks (length xss) n (concat xss))"
  then have i: "i < length xss" by (simp add: chunks_def)
  then show "chunks (length xss) n (concat xss) ! i = xss ! i"
    using take_drop_concat_uniform [OF assms i] by (simp add: chunks_def)
qed

lemma length_chunks [simp]: "length (chunks k n xs) = k"
  by (simp add: chunks_def)

lemma nth_chunks: "i < k \<Longrightarrow> chunks k n xs ! i = take n (drop (i * n) xs)"
  by (simp add: chunks_def)

lemma nth_concat_uniform:
  assumes u: "\<And>x. x \<in> set xss \<Longrightarrow> length x = n" and i: "i < length xss" and j: "j < n"
  shows "concat xss ! (i * n + j) = xss ! i ! j"
proof -
  have len: "length (concat xss) = length xss * n"
    using u by (rule length_concat_uniform)
  have "i * n + n \<le> length xss * n"
    using i by (metis Suc_leI mult_Suc mult_le_mono1 add.commute)
  then have le: "i * n \<le> length (concat xss)" using len i by simp
  have "xss ! i ! j = take n (drop (i * n) (concat xss)) ! j"
    using take_drop_concat_uniform [OF u i] by simp
  also have "\<dots> = drop (i * n) (concat xss) ! j"
    using j by simp
  also have "\<dots> = concat xss ! (i * n + j)"
    using le by simp
  finally show ?thesis by simp
qed


lemma index_of_nth:
  "distinct xs \<Longrightarrow> i < length xs \<Longrightarrow> index_of xs (xs ! i) = i"
proof (induction xs arbitrary: i)
  case Nil
  then show ?case by simp
next
  case (Cons a xs)
  then show ?case by (cases i) auto
qed

lemma index_of_less: "x \<in> set xs \<Longrightarrow> index_of xs x < length xs"
  by (induction xs) auto

lemma nth_index_of: "x \<in> set xs \<Longrightarrow> xs ! index_of xs x = x"
  by (induction xs) auto

lemma index_of_keys:
  assumes "l < n"
  shows "index_of (map (\<lambda>l. [int l]) [0..<n]) [int l] = l"
proof -
  have "distinct (map (\<lambda>l. [int l]) [0..<n])"
    by (simp add: distinct_map inj_on_def)
  from index_of_nth [OF this, of l] assms show ?thesis by simp
qed

lemma wf_rows_nth:
  "wf_rows b c rows \<Longrightarrow> i < length rows \<Longrightarrow> length (rows ! i) = b"
  by (simp add: wf_rows_def)

lemma wf_rows_nth_nth:
  "wf_rows b c rows \<Longrightarrow> i < length rows \<Longrightarrow> j < b \<Longrightarrow> length (rows ! i ! j) = c"
  by (metis wf_rows_def nth_mem)

lemma wf_rowsI:
  assumes "\<And>i. i < length rows \<Longrightarrow> length (rows ! i) = b"
    and "\<And>i j. i < length rows \<Longrightarrow> j < b \<Longrightarrow> length (rows ! i ! j) = c"
  shows "wf_rows b c rows"
  unfolding wf_rows_def
proof (intro ballI conjI)
  fix x assume "x \<in> set rows"
  then obtain i where i: "i < length rows" "x = rows ! i" by (metis in_set_conv_nth)
  then show lx: "length x = b" using assms(1) by simp
  fix y assume "y \<in> set x"
  then obtain j where "j < length x" "y = x ! j" by (metis in_set_conv_nth)
  then show "length y = c" using assms(2) [of i j] i lx by simp
qed

lemma length_flat3:
  assumes "wf_rows b c rows"
  shows "length (flat3 rows) = length rows * b * c"
proof -
  have 1: "length (concat rows) = length rows * b"
    using assms by (intro length_concat_uniform) (simp add: wf_rows_def)
  have "length (concat (concat rows)) = length (concat rows) * c"
    using assms by (intro length_concat_uniform) (auto simp: wf_rows_def)
  then show ?thesis using 1 by (simp add: flat3_def)
qed

lemma chunks_flat3:
  assumes "wf_rows b c rows"
  shows "chunks (length rows * b) c (flat3 rows) = concat rows"
proof -
  have 1: "length (concat rows) = length rows * b"
    using assms by (intro length_concat_uniform) (simp add: wf_rows_def)
  have "chunks (length (concat rows)) c (concat (concat rows)) = concat rows"
    using assms by (intro chunks_concat) (auto simp: wf_rows_def)
  then show ?thesis using 1 by (simp add: flat3_def)
qed

lemma chunks_concat_rows:
  assumes "wf_rows b c rows"
  shows "chunks (length rows) b (concat rows) = rows"
  using assms by (intro chunks_concat) (simp add: wf_rows_def)

lemma infer_dim_mult: "0 < k \<Longrightarrow> infer_dim k (k * c) = Inr c"
  by (simp add: infer_dim_def)

lemma reshape3_flat3:
  assumes "wf_rows b c rows" and "0 < length rows" and "0 < b"
  shows "reshape3 (length rows) b (flat3 rows) = Inr \<lparr>shape3 = (length rows, b, c), rows3 = rows\<rparr>"
proof -
  have "infer_dim (length rows * b) (length (flat3 rows)) = Inr c"
    using infer_dim_mult [of "length rows * b" c] assms by (simp add: length_flat3)
  then show ?thesis
    using assms by (simp add: reshape3_def chunks_flat3 chunks_concat_rows)
qed

lemma wf3I: "length rows = a \<Longrightarrow> wf_rows b c rows \<Longrightarrow> wf3 \<lparr>shape3 = (a, b, c), rows3 = rows\<rparr>"
  by (simp add: wf3_def)

subsection \<open>Unknown neighbor species\<close>

lemma fst_set_species_zip:
  "fst ` set (rev (zip xs [0..<length xs])) = set xs"
proof -
  have "map fst (zip xs [0..<length xs]) = xs" by simp
  then have "set (map fst (zip xs [0..<length xs])) = set xs" by simp
  then show ?thesis by (simp only: set_map set_rev)
qed

lemma species_to_index_unknown:
  assumes "a \<notin> set (all_species c)"
  shows "species_to_index c a = Inl (KeyError a)"
proof -
  have "map_of (rev (zip (all_species c) [0..<length (all_species c)])) a = None"
    using assms fst_set_species_zip [of "all_species c"] by (metis map_of_eq_None_iff)
  then show ?thesis by (simp add: species_to_index_def)
qed

lemma species_to_index_known:
  assumes "a \<in> set (all_species c)"
  shows "\<exists>i < length (all_species c). species_to_index c a = Inr (int i) \<and> all_species c ! i = a"
proof -
  let ?zs = "rev (zip (all_species c) [0..<length (all_species c)])"
  have "a \<in> fst ` set ?zs" using assms fst_set_species_zip [of "all_species c"] by simp
  then obtain i where i: "map_of ?zs a = Some i"
    by (metis map_of_eq_None_iff not_Some_eq)
  then have "(a, i) \<in> set ?zs" by (rule map_of_SomeD)
  then have "i < length (all_species c) \<and> all_species c ! i = a"
    by (auto simp: set_zip)
  with i show ?thesis by (auto simp: species_to_index_def)
qed







text \<open>
  C1 fails on the code. In the batch \<open>o_then_h2\<close> the first structure has no pair, so the
  pairs of the second structure get the offset 0 of the first: the two hydrogen atoms get the
  rows \<open>[0, 1]\<close> and \<open>[0, 0]\<close>, while the hydrogen molecule alone gives both of them
  the row \<open>[1, 0]\<close>.
\<close>

theorem batching_changes_rows:
  "block_samples (forward standard_calculator o_then_h2) = Inr [[[1, 0], [1, 1]], [[0, 0]]] \<and>
   block_rows (forward standard_calculator o_then_h2) = Inr [[[[0, 1]], [[0, 0]]], [[[1, 0]]]] \<and>
   block_samples (forward standard_calculator h2_alone) = Inr [[[0, 0], [0, 1]], []] \<and>
   block_rows (forward standard_calculator h2_alone) = Inr [[[[1, 0]], [[1, 0]]], []]"
  by code_simp

lemma o_then_h2_valid: "valid_batch o_then_h2"
  by code_simp

lemma lone_atom_valid: "valid_batch lone_atom"
  by code_simp

lemma c_then_h2_valid: "valid_batch c_then_h2"
  by code_simp

text \<open>
  C6 fails on the code, by the same defect. In the batch \<open>o_then_h2\<close> no pair belongs to
  structure 0, whose only atom is the oxygen atom; yet the row of that atom, the only row of
  the block of key \<open>(8, 0, 1)\<close>, is \<open>[1, 0]\<close> and not zero.
\<close>

theorem isolated_atom_row_not_zero:
  "0 \<notin> set (structure_pairs o_then_h2) \<and>
   map_sum id (\<lambda>tm. entries (keys tm) ! 1) (forward standard_calculator o_then_h2) = Inr [8, 0, 1] \<and>
   map_sum id (\<lambda>tm. entries (samples (blocks tm ! 1))) (forward standard_calculator o_then_h2)
     = Inr [[0, 0]] \<and>
   map_sum id (\<lambda>tm. rows3 (block_values (blocks tm ! 1))) (forward standard_calculator o_then_h2)
     = Inr [[[1, 0]]]"
  by code_simp

subsection \<open>The Vector Expansion\<close>

lemma length_split_sizes [simp]: "length (split_sizes row sizes) = length sizes"
  by (induction sizes arbitrary: row) auto

lemma length_split_sizes_nth:
  "l < length sizes \<Longrightarrow> sum_list sizes \<le> length row \<Longrightarrow>
     length (split_sizes row sizes ! l) = sizes ! l"
proof (induction sizes arbitrary: row l)
  case Nil
  then show ?case by simp
next
  case (Cons k ks)
  then show ?case by (cases l) auto
qed

lemma torch_split_chunks:
  assumes "torch_split t sizes = Inr ts" and "wf2 t"
  shows "length ts = length sizes"
    and "l < length sizes \<Longrightarrow> wf2 (ts ! l) \<and> shape2 (ts ! l) = (fst (shape2 t), sizes ! l)
           \<and> rows2 (ts ! l) = map (\<lambda>row. split_sizes row sizes ! l) (rows2 t)"
proof -
  from assms(1) have sum: "sum_list sizes = snd (shape2 t)"
    and ts: "ts = map (\<lambda>l. \<lparr>shape2 = (fst (shape2 t), sizes ! l),
                   rows2 = map (\<lambda>row. split_sizes row sizes ! l) (rows2 t)\<rparr>) [0..<length sizes]"
    by (auto simp: torch_split_def split: if_splits)
  show "length ts = length sizes" by (simp add: ts)
  assume l: "l < length sizes"
  have "\<And>row. row \<in> set (rows2 t) \<Longrightarrow> length (split_sizes row sizes ! l) = sizes ! l"
    using assms(2) sum l by (intro length_split_sizes_nth) (auto simp: wf2_def)
  then show "wf2 (ts ! l) \<and> shape2 (ts ! l) = (fst (shape2 t), sizes ! l)
           \<and> rows2 (ts ! l) = map (\<lambda>row. split_sizes row sizes ! l) (rows2 t)"
    using l assms(2) by (simp add: ts wf2_def)
qed

lemma broadcast_same:
  "length xs = length ys \<Longrightarrow> broadcast f xs ys = Inr (map2 f xs ys)"
  by (simp add: broadcast_def)

lemma wf_rows4I:
  assumes "\<And>i. i < length rows \<Longrightarrow> length (rows ! i) = b \<and> wf_rows c d (rows ! i)"
  shows "wf_rows4 b c d rows"
  unfolding wf_rows4_def using assms by (metis in_set_conv_nth)

lemma wf_rows_map_concat:
  assumes "wf_rows4 b c d rows"
  shows "wf_rows b (c * d) (map (map concat) rows)"
proof (rule wf_rowsI)
  fix i assume "i < length (map (map concat) rows)"
  then have i: "i < length rows" by simp
  then have x: "length (rows ! i) = b" "wf_rows c d (rows ! i)"
    using assms by (auto simp: wf_rows4_def)
  show "length (map (map concat) rows ! i) = b" using i x by simp
  fix j assume j: "j < b"
  have "length (concat (rows ! i ! j)) = length (rows ! i ! j) * d"
    using x j by (intro length_concat_uniform) (metis wf_rows_def nth_mem)
  moreover have "length (rows ! i ! j) = c"
    using x j by (metis wf_rows_def nth_mem)
  ultimately show "length (map (map concat) rows ! i ! j) = c * d"
    using i j x by simp
qed

lemma concat_map_concat: "concat (map concat xss) = concat (concat xss)"
  by (induction xss) auto

lemma flat4_map_concat: "flat4 rows = flat3 (map (map concat) rows)"
proof -
  have "concat (concat (map (map concat) rows)) = concat (map concat (concat rows))"
    by (simp add: map_concat)
  also have "\<dots> = concat (concat (concat rows))"
    by (rule concat_map_concat)
  finally show ?thesis by (simp add: flat3_def flat4_def)
qed

lemma reshape3_flat4:
  assumes "wf_rows4 b c d rows" and "0 < length rows" and "0 < b"
  shows "reshape3 (length rows) b (flat4 rows) =
           Inr \<lparr>shape3 = (length rows, b, c * d), rows3 = map (map concat) rows\<rparr>"
  using reshape3_flat3 [OF wf_rows_map_concat [OF assms(1)]] assms(2,3)
  by (simp add: flat4_map_concat)

lemma infer_dim_Inr: "infer_dim k n = Inr d \<Longrightarrow> 0 < k"
  by (auto simp: infer_dim_def split: if_splits)

lemma reshape3_Inr_pos: "reshape3 a b flat = Inr t \<Longrightarrow> 0 < a \<and> 0 < b"
  by (auto simp: reshape3_def bnd_eq_Inr dest: infer_dim_Inr)

lemma reshape4_Inr_pos: "reshape4 a b c flat = Inr t \<Longrightarrow> 0 < a \<and> 0 < b \<and> 0 < c"
  by (auto simp: reshape4_def bnd_eq_Inr dest: infer_dim_Inr)

lemma vector_expansion_block_standard_values:
  assumes blk: "vector_expansion_block_standard smp l rb sh = Inr blk"
    and rb: "wf2 rb" "fst (shape2 rb) = P"
    and sh: "wf2 sh" "shape2 sh = (P, 2 * l + 1)"
  shows "block_values blk =
           \<lparr>shape3 = (P, 2 * l + 1, snd (shape2 rb)),
            rows3 = map2 (\<lambda>r s. map (\<lambda>y. map (\<lambda>x. x * y) r) s) (rows2 rb) (rows2 sh)\<rparr>"
    and "wf3 (block_values blk)" and "samples blk = smp" and "components blk = m_components l"
    and "properties blk = \<lparr>names = [''n''], entries = map (\<lambda>n. [n]) (arange (snd (shape2 rb)))\<rparr>"
    and "0 < P"
proof -
  let ?rows = "map2 (\<lambda>r s. map (\<lambda>y. map (\<lambda>x. x * y) r) s) (rows2 rb) (rows2 sh)"
  have len: "length (rows2 rb) = P" "length (rows2 sh) = P"
    using rb sh by (simp_all add: wf2_def)
  then have prod: "product_standard rb sh =
      Inr \<lparr>shape3 = (P, 2 * l + 1, snd (shape2 rb)), rows3 = ?rows\<rparr>"
    using sh by (simp add: product_standard_def broadcast_same)
  have wf: "wf_rows (2 * l + 1) (snd (shape2 rb)) ?rows"
  proof (rule wf_rowsI)
    fix i assume "i < length ?rows"
    then have i: "i < P" using len by simp
    then have s: "length (rows2 sh ! i) = 2 * l + 1" and r: "length (rows2 rb ! i) = snd (shape2 rb)"
      using rb sh len by (simp_all add: wf2_def)
    show "length (?rows ! i) = 2 * l + 1" using i len s by simp
    fix j assume "j < 2 * l + 1"
    then show "length (?rows ! i ! j) = snd (shape2 rb)" using i len s r by simp
  qed
  have lr: "length ?rows = P" using len by simp
  from blk prod obtain v where
    v: "reshape3 P (2 * l + 1) (flat3 ?rows) = Inr v" and b: "blk = \<lparr>block_values = v, samples = smp,
        components = m_components l,
        properties = \<lparr>names = [''n''], entries = map (\<lambda>n. [n]) (arange (snd (shape2 rb)))\<rparr>\<rparr>"
    by (auto simp: vector_expansion_block_standard_def bnd_eq_Inr Let_def)
  from v show P: "0 < P" by (auto dest: reshape3_Inr_pos)
  have "reshape3 (length ?rows) (2 * l + 1) (flat3 ?rows) =
          Inr \<lparr>shape3 = (length ?rows, 2 * l + 1, snd (shape2 rb)), rows3 = ?rows\<rparr>"
    using wf P lr by (intro reshape3_flat3) simp_all
  with v lr have veq: "v = \<lparr>shape3 = (P, 2 * l + 1, snd (shape2 rb)), rows3 = ?rows\<rparr>"
    by simp
  show "block_values blk = \<lparr>shape3 = (P, 2 * l + 1, snd (shape2 rb)), rows3 = ?rows\<rparr>"
    using b veq by simp
  show "wf3 (block_values blk)" using b veq wf lr by (simp add: wf3_def)
  show "samples blk = smp" "components blk = m_components l"
    "properties blk = \<lparr>names = [''n''], entries = map (\<lambda>n. [n]) (arange (snd (shape2 rb)))\<rparr>"
    using b by simp_all
qed


lemma vector_expansion_block_alchemical_values:
  assumes blk: "vector_expansion_block_alchemical k smp l rb sh = Inr blk"
    and rb: "wf3 rb" "shape3 rb = (P, A, N)"
    and sh: "wf2 sh" "shape2 sh = (P, 2 * l + 1)"
  shows "block_values blk =
           \<lparr>shape3 = (P, 2 * l + 1, A * N),
            rows3 = map2 (\<lambda>r s. map (\<lambda>y. concat (map (map (\<lambda>x. x * y)) r)) s) (rows3 rb) (rows2 sh)\<rparr>"
    and "wf3 (block_values blk)" and "samples blk = smp" and "components blk = m_components l"
    and "names (properties blk) = [''alpha_j'', ''n'']"
    and "stack_last [np_repeat (map uminus (arange k)) N, np_tile (arange N) k] ValueError
           = Inr (entries (properties blk))"
    and "0 < P"
proof -
  let ?rows4 = "map2 (\<lambda>r s. map (\<lambda>y. map (map (\<lambda>x. x * y)) r) s) (rows3 rb) (rows2 sh)"
  let ?rows = "map2 (\<lambda>r s. map (\<lambda>y. concat (map (map (\<lambda>x. x * y)) r)) s) (rows3 rb) (rows2 sh)"
  have len: "length (rows3 rb) = P" "length (rows2 sh) = P"
    using rb sh by (simp_all add: wf3_def wf2_def)
  have wfrb: "wf_rows A N (rows3 rb)" using rb by (simp add: wf3_def)
  have prod: "product_alchemical rb sh = Inr \<lparr>shape4 = (P, 2 * l + 1, A, N), rows4 = ?rows4\<rparr>"
    using len sh rb by (simp add: product_alchemical_def broadcast_same)
  have wf: "wf_rows4 (2 * l + 1) A N ?rows4"
  proof (rule wf_rows4I)
    fix i assume "i < length ?rows4"
    then have i: "i < P" using len by simp
    have s: "length (rows2 sh ! i) = 2 * l + 1"
      using sh len i by (simp add: wf2_def)
    have r: "length (rows3 rb ! i) = A"
      using wfrb i len by (simp add: wf_rows_nth)
    have r2: "\<And>j. j < A \<Longrightarrow> length (rows3 rb ! i ! j) = N"
      using wfrb i len by (simp add: wf_rows_nth_nth)
    have "wf_rows A N (?rows4 ! i)"
      using i len r r2 by (intro wf_rowsI) simp_all
    then show "length (?rows4 ! i) = 2 * l + 1 \<and> wf_rows A N (?rows4 ! i)"
      using i len s by simp
  qed
  have lr: "length ?rows4 = P" using len by simp
  have mc: "map (map concat) ?rows4 = ?rows"
    by (rule nth_equalityI) (simp_all add: len)
  from blk prod obtain v props where
    props: "stack_last [np_repeat (map uminus (arange k)) N, np_tile (arange N) k] ValueError = Inr props"
    and v: "reshape3 P (2 * l + 1) (flat4 ?rows4) = Inr v"
    and b: "blk = \<lparr>block_values = v, samples = smp, components = m_components l,
        properties = \<lparr>names = [''alpha_j'', ''n''], entries = props\<rparr>\<rparr>"
    by (auto simp: vector_expansion_block_alchemical_def bnd_eq_Inr Let_def)
  from v show P: "0 < P" by (auto dest: reshape3_Inr_pos)
  have "reshape3 (length ?rows4) (2 * l + 1) (flat4 ?rows4) =
          Inr \<lparr>shape3 = (length ?rows4, 2 * l + 1, A * N), rows3 = map (map concat) ?rows4\<rparr>"
    using wf P lr by (intro reshape3_flat4) simp_all
  with v lr mc have veq: "v = \<lparr>shape3 = (P, 2 * l + 1, A * N), rows3 = ?rows\<rparr>"
    by simp
  show "block_values blk = \<lparr>shape3 = (P, 2 * l + 1, A * N), rows3 = ?rows\<rparr>"
    using b veq by simp
  have "wf_rows (2 * l + 1) (A * N) (map (map concat) ?rows4)"
    using wf by (rule wf_rows_map_concat)
  then have "wf_rows (2 * l + 1) (A * N) ?rows" by (simp only: mc)
  moreover have "length ?rows = P" using len by simp
  ultimately have "wf3 \<lparr>shape3 = (P, 2 * l + 1, A * N), rows3 = ?rows\<rparr>"
    by (rule wf3I [rotated])
  then show "wf3 (block_values blk)" using b veq by simp
  show "samples blk = smp" "components blk = m_components l"
    "names (properties blk) = [''alpha_j'', ''n'']"
    "stack_last [np_repeat (map uminus (arange k)) N, np_tile (arange N) k] ValueError
           = Inr (entries (properties blk))"
    using b props by simp_all
qed


lemma get_cartesian_vectors_cvalues:
  "get_cartesian_vectors b = Inr cv \<Longrightarrow> cvalues cv = direction_vectors b"
  by (auto simp: get_cartesian_vectors_def bnd_eq_Inr)

lemma length_split_list [simp]: "length (spherical_harmonics_split_list c) = l_max c + 1"
  by (simp add: spherical_harmonics_split_list_def)

lemma nth_split_list:
  "l \<le> l_max c \<Longrightarrow> spherical_harmonics_split_list c ! l = 2 * l + 1"
  by (simp add: spherical_harmonics_split_list_def nth_append del: upt_Suc)

lemma mapM_enumerate:
  assumes "mapM (\<lambda>(l, x, y). f l x y) (zip [0..<length xs] (zip xs ys)) = Inr zs"
    and "length ys = length xs"
  shows "length zs = length xs" and "i < length xs \<Longrightarrow> f i (xs ! i) (ys ! i) = Inr (zs ! i)"
proof -
  from assms show "length zs = length xs" by (simp add: mapM_Inr_iff)
  assume i: "i < length xs"
  with assms have "(\<lambda>(l, x, y). f l x y) (zip [0..<length xs] (zip xs ys) ! i) = Inr (zs ! i)"
    by (simp add: mapM_Inr_iff del: upt_Suc)
  then show "f i (xs ! i) (ys ! i) = Inr (zs ! i)"
    using i assms(2) by (simp del: upt_Suc)
qed

lemma vector_expansion_standard:
  assumes ve: "vector_expansion c b = Inr ev" and mode: "radial_basis_calculator c = Standard rbc"
    and rc: "radial_contract c b" and hc: "harmonics_contract c b"
  shows "\<exists>cv ts sh. get_cartesian_vectors b = Inr cv \<and> radial_output c b = Some (Inl ts) \<and>
     spherical_harmonics_calculator c (direction_vectors b) = Inr sh \<and>
     length (blocks ev) = l_max c + 1 \<and>
     entries (keys ev) = map (\<lambda>l. [int l]) [0..<l_max c + 1] \<and>
     0 < length (direction_vectors b) \<and>
     (\<forall>l \<le> l_max c.
        block_values (blocks ev ! l) =
          \<lparr>shape3 = (length (direction_vectors b), 2 * l + 1, snd (shape2 (ts ! l))),
           rows3 = map2 (\<lambda>r s. map (\<lambda>y. map (\<lambda>x. x * y) r) s) (rows2 (ts ! l))
                     (map (\<lambda>row. split_sizes row (spherical_harmonics_split_list c) ! l) (rows2 sh))\<rparr> \<and>
        wf3 (block_values (blocks ev ! l)) \<and>
        wf2 (ts ! l) \<and> fst (shape2 (ts ! l)) = length (direction_vectors b) \<and>
        samples (blocks ev ! l) = csamples cv \<and>
        components (blocks ev ! l) = m_components l \<and>
        properties (blocks ev ! l) =
          \<lparr>names = [''n''], entries = map (\<lambda>n. [n]) (arange (snd (shape2 (ts ! l))))\<rparr>)"
proof -
  let ?P = "length (direction_vectors b)"
  let ?sizes = "spherical_harmonics_split_list c"
  from ve mode obtain cv ts sh shs where
    cv: "get_cartesian_vectors b = Inr cv"
    and ts: "rbc (map norm3 (cvalues cv)) (csamples cv) = Inr ts"
    and sh: "spherical_harmonics_calculator c (cvalues cv) = Inr sh"
    and shs: "torch_split sh ?sizes = Inr shs"
    and bl: "mapM (\<lambda>(l, rb_l, sh_l). vector_expansion_block_standard (csamples cv) l rb_l sh_l)
               (zip [0..<length ts] (zip ts shs)) = Inr (blocks ev)"
    and ks: "entries (keys ev) = map (\<lambda>l. [int l]) [0..<length (blocks ev)]"
    by (auto simp: vector_expansion_def bnd_eq_Inr Let_def)
  have dv: "cvalues cv = direction_vectors b" using cv by (rule get_cartesian_vectors_cvalues)
  have ro: "radial_output c b = Some (Inl ts)"
    using cv mode ts by (simp add: radial_output_def)
  have lts: "length ts = l_max c + 1"
    and wts: "\<And>t. t \<in> set ts \<Longrightarrow> wf2 t \<and> fst (shape2 t) = ?P"
    using rc ro by (simp_all add: radial_contract_def)
  have wsh: "wf2 sh" "fst (shape2 sh) = ?P"
    using hc sh dv by (simp_all add: harmonics_contract_def)
  have lshs: "length shs = l_max c + 1"
    using torch_split_chunks(1) [OF shs wsh(1)] by simp
  have lb: "length (blocks ev) = l_max c + 1"
    using mapM_enumerate(1) [OF bl] lts lshs by simp
  have vals: "block_values (blocks ev ! l) =
          \<lparr>shape3 = (?P, 2 * l + 1, snd (shape2 (ts ! l))),
           rows3 = map2 (\<lambda>r s. map (\<lambda>y. map (\<lambda>x. x * y) r) s) (rows2 (ts ! l))
                     (rows2 (shs ! l))\<rparr>"
      "wf3 (block_values (blocks ev ! l))"
      "samples (blocks ev ! l) = csamples cv"
      "components (blocks ev ! l) = m_components l"
      "properties (blocks ev ! l) =
          \<lparr>names = [''n''], entries = map (\<lambda>n. [n]) (arange (snd (shape2 (ts ! l))))\<rparr>"
      "0 < ?P"
      "wf2 (ts ! l)" "fst (shape2 (ts ! l)) = ?P"
      "rows2 (shs ! l) = map (\<lambda>row. split_sizes row ?sizes ! l) (rows2 sh)"
    if l: "l \<le> l_max c" for l
  proof -
    have 1: "vector_expansion_block_standard (csamples cv) l (ts ! l) (shs ! l) = Inr (blocks ev ! l)"
      using mapM_enumerate(2) [OF bl, of l] l lts lshs by simp
    show 2: "wf2 (ts ! l)" and 3: "fst (shape2 (ts ! l)) = ?P"
      using wts [of "ts ! l"] l lts by simp_all
    have 4: "wf2 (shs ! l)" and 5: "shape2 (shs ! l) = (?P, 2 * l + 1)"
      and "rows2 (shs ! l) = map (\<lambda>row. split_sizes row ?sizes ! l) (rows2 sh)"
      using torch_split_chunks(2) [OF shs wsh(1), of l] l wsh(2) by (simp_all add: nth_split_list)
    then show "rows2 (shs ! l) = map (\<lambda>row. split_sizes row ?sizes ! l) (rows2 sh)" by simp
    note v = vector_expansion_block_standard_values [OF 1 2 3 4 5]
    show "block_values (blocks ev ! l) =
          \<lparr>shape3 = (?P, 2 * l + 1, snd (shape2 (ts ! l))),
           rows3 = map2 (\<lambda>r s. map (\<lambda>y. map (\<lambda>x. x * y) r) s) (rows2 (ts ! l))
                     (rows2 (shs ! l))\<rparr>"
      by (rule v(1))
    show "wf3 (block_values (blocks ev ! l))" by (rule v(2))
    show "samples (blocks ev ! l) = csamples cv" by (rule v(3))
    show "components (blocks ev ! l) = m_components l" by (rule v(4))
    show "properties (blocks ev ! l) =
          \<lparr>names = [''n''], entries = map (\<lambda>n. [n]) (arange (snd (shape2 (ts ! l))))\<rparr>"
      by (rule v(5))
    show "0 < ?P" by (rule v(6))
  qed
  have pos: "0 < ?P" using vals(6) [of 0] by simp
  have sh': "spherical_harmonics_calculator c (direction_vectors b) = Inr sh"
    using sh dv by simp
  have ks': "entries (keys ev) = map (\<lambda>l. [int l]) [0..<l_max c + 1]"
    using ks lb by simp
  have "\<forall>l \<le> l_max c.
        block_values (blocks ev ! l) =
          \<lparr>shape3 = (length (direction_vectors b), 2 * l + 1, snd (shape2 (ts ! l))),
           rows3 = map2 (\<lambda>r s. map (\<lambda>y. map (\<lambda>x. x * y) r) s) (rows2 (ts ! l))
                     (map (\<lambda>row. split_sizes row (spherical_harmonics_split_list c) ! l) (rows2 sh))\<rparr> \<and>
        wf3 (block_values (blocks ev ! l)) \<and>
        wf2 (ts ! l) \<and> fst (shape2 (ts ! l)) = length (direction_vectors b) \<and>
        samples (blocks ev ! l) = csamples cv \<and>
        components (blocks ev ! l) = m_components l \<and>
        properties (blocks ev ! l) =
          \<lparr>names = [''n''], entries = map (\<lambda>n. [n]) (arange (snd (shape2 (ts ! l))))\<rparr>"
  proof (intro allI impI conjI)
    fix l assume l: "l \<le> l_max c"
    show "block_values (blocks ev ! l) =
          \<lparr>shape3 = (length (direction_vectors b), 2 * l + 1, snd (shape2 (ts ! l))),
           rows3 = map2 (\<lambda>r s. map (\<lambda>y. map (\<lambda>x. x * y) r) s) (rows2 (ts ! l))
                     (map (\<lambda>row. split_sizes row (spherical_harmonics_split_list c) ! l) (rows2 sh))\<rparr>"
      using vals(1) [OF l] vals(9) [OF l] by simp
    show "wf3 (block_values (blocks ev ! l))" using l by (rule vals(2))
    show "wf2 (ts ! l)" using l by (rule vals(7))
    show "fst (shape2 (ts ! l)) = length (direction_vectors b)" using l by (rule vals(8))
    show "samples (blocks ev ! l) = csamples cv" using l by (rule vals(3))
    show "components (blocks ev ! l) = m_components l" using l by (rule vals(4))
    show "properties (blocks ev ! l) =
          \<lparr>names = [''n''], entries = map (\<lambda>n. [n]) (arange (snd (shape2 (ts ! l))))\<rparr>"
      using l by (rule vals(5))
  qed
  with cv ro sh' lb ks' pos show ?thesis by blast
qed


lemma mapM_enumerate_length:
  assumes "mapM (\<lambda>(l, x, y). f l x y) (zip [0..<length xs] (zip xs ys)) = Inr zs"
    and "length ys = length xs"
  shows "length zs = length xs"
  using assms by (rule mapM_enumerate(1))

lemma length_unique_species_alchemical:
  "radial_basis_calculator c = Alchemical k rbc \<Longrightarrow> length (unique_species c) = k"
  by (simp add: unique_species_def arange_def)

lemma vector_expansion_alchemical:
  assumes ve: "vector_expansion c b = Inr ev" and mode: "radial_basis_calculator c = Alchemical k rbc"
    and rc: "radial_contract c b" and hc: "harmonics_contract c b"
  shows "\<exists>cv ts sh. get_cartesian_vectors b = Inr cv \<and> radial_output c b = Some (Inr ts) \<and>
     spherical_harmonics_calculator c (direction_vectors b) = Inr sh \<and>
     length (blocks ev) = l_max c + 1 \<and>
     entries (keys ev) = map (\<lambda>l. [int l]) [0..<l_max c + 1] \<and>
     0 < length (direction_vectors b) \<and>
     (\<forall>l \<le> l_max c.
        block_values (blocks ev ! l) =
          \<lparr>shape3 = (length (direction_vectors b), 2 * l + 1, k * snd (snd (shape3 (ts ! l)))),
           rows3 = map2 (\<lambda>r s. map (\<lambda>y. concat (map (map (\<lambda>x. x * y)) r)) s) (rows3 (ts ! l))
                     (map (\<lambda>row. split_sizes row (spherical_harmonics_split_list c) ! l) (rows2 sh))\<rparr> \<and>
        wf3 (block_values (blocks ev ! l)) \<and>
        wf3 (ts ! l) \<and> fst (shape3 (ts ! l)) = length (direction_vectors b) \<and>
        samples (blocks ev ! l) = csamples cv \<and>
        components (blocks ev ! l) = m_components l \<and>
        names (properties (blocks ev ! l)) = [''alpha_j'', ''n''] \<and>
        stack_last [np_repeat (map uminus (arange k)) (snd (snd (shape3 (ts ! l)))),
                    np_tile (arange (snd (snd (shape3 (ts ! l))))) k] ValueError
           = Inr (entries (properties (blocks ev ! l))))"
proof -
  let ?P = "length (direction_vectors b)"
  let ?sizes = "spherical_harmonics_split_list c"
  from ve mode obtain cv ts sh shs where
    cv: "get_cartesian_vectors b = Inr cv"
    and ts: "rbc (map norm3 (cvalues cv)) (csamples cv) = Inr ts"
    and sh: "spherical_harmonics_calculator c (cvalues cv) = Inr sh"
    and shs: "torch_split sh ?sizes = Inr shs"
    and bl: "mapM (\<lambda>(l, rb_l, sh_l). vector_expansion_block_alchemical k (csamples cv) l rb_l sh_l)
               (zip [0..<length ts] (zip ts shs)) = Inr (blocks ev)"
    and ks: "entries (keys ev) = map (\<lambda>l. [int l]) [0..<length (blocks ev)]"
    by (auto simp: vector_expansion_def bnd_eq_Inr Let_def)
  have dv: "cvalues cv = direction_vectors b" using cv by (rule get_cartesian_vectors_cvalues)
  have ro: "radial_output c b = Some (Inr ts)"
    using cv mode ts by (simp add: radial_output_def)
  have lu: "length (unique_species c) = k"
    using mode by (rule length_unique_species_alchemical)
  have lts: "length ts = l_max c + 1"
    and wts: "\<And>t. t \<in> set ts \<Longrightarrow> wf3 t \<and> fst (shape3 t) = ?P \<and> fst (snd (shape3 t)) = k"
    using rc ro lu by (simp_all add: radial_contract_def)
  have wsh: "wf2 sh" "fst (shape2 sh) = ?P"
    using hc sh dv by (simp_all add: harmonics_contract_def)
  have lshs: "length shs = l_max c + 1"
    using torch_split_chunks(1) [OF shs wsh(1)] by simp
  have lb: "length (blocks ev) = l_max c + 1"
    using mapM_enumerate_length [OF bl] lts lshs by simp
  have vals: "block_values (blocks ev ! l) =
          \<lparr>shape3 = (?P, 2 * l + 1, k * snd (snd (shape3 (ts ! l)))),
           rows3 = map2 (\<lambda>r s. map (\<lambda>y. concat (map (map (\<lambda>x. x * y)) r)) s) (rows3 (ts ! l))
                     (rows2 (shs ! l))\<rparr>"
      "wf3 (block_values (blocks ev ! l))"
      "samples (blocks ev ! l) = csamples cv"
      "components (blocks ev ! l) = m_components l"
      "names (properties (blocks ev ! l)) = [''alpha_j'', ''n'']"
      "stack_last [np_repeat (map uminus (arange k)) (snd (snd (shape3 (ts ! l)))),
                    np_tile (arange (snd (snd (shape3 (ts ! l))))) k] ValueError
           = Inr (entries (properties (blocks ev ! l)))"
      "0 < ?P"
      "wf3 (ts ! l)" "fst (shape3 (ts ! l)) = ?P"
      "rows2 (shs ! l) = map (\<lambda>row. split_sizes row ?sizes ! l) (rows2 sh)"
    if l: "l \<le> l_max c" for l
  proof -
    have 1: "vector_expansion_block_alchemical k (csamples cv) l (ts ! l) (shs ! l) = Inr (blocks ev ! l)"
      using mapM_enumerate(2) [OF bl, of l] l lts lshs by simp
    have w: "wf3 (ts ! l) \<and> fst (shape3 (ts ! l)) = ?P \<and> fst (snd (shape3 (ts ! l))) = k"
      using wts [of "ts ! l"] l lts by simp
    then show 2: "wf3 (ts ! l)" and "fst (shape3 (ts ! l)) = ?P" by simp_all
    have 3: "shape3 (ts ! l) = (?P, k, snd (snd (shape3 (ts ! l))))"
      using w by (metis prod.collapse)
    have 4: "wf2 (shs ! l)" and 5: "shape2 (shs ! l) = (?P, 2 * l + 1)"
      and "rows2 (shs ! l) = map (\<lambda>row. split_sizes row ?sizes ! l) (rows2 sh)"
      using torch_split_chunks(2) [OF shs wsh(1), of l] l wsh(2) by (simp_all add: nth_split_list)
    then show "rows2 (shs ! l) = map (\<lambda>row. split_sizes row ?sizes ! l) (rows2 sh)" by simp
    note v = vector_expansion_block_alchemical_values [OF 1 2 3 4 5]
    show "block_values (blocks ev ! l) =
          \<lparr>shape3 = (?P, 2 * l + 1, k * snd (snd (shape3 (ts ! l)))),
           rows3 = map2 (\<lambda>r s. map (\<lambda>y. concat (map (map (\<lambda>x. x * y)) r)) s) (rows3 (ts ! l))
                     (rows2 (shs ! l))\<rparr>"
      by (rule v(1))
    show "wf3 (block_values (blocks ev ! l))" by (rule v(2))
    show "samples (blocks ev ! l) = csamples cv" by (rule v(3))
    show "components (blocks ev ! l) = m_components l" by (rule v(4))
    show "names (properties (blocks ev ! l)) = [''alpha_j'', ''n'']" by (rule v(5))
    show "stack_last [np_repeat (map uminus (arange k)) (snd (snd (shape3 (ts ! l)))),
                    np_tile (arange (snd (snd (shape3 (ts ! l))))) k] ValueError
           = Inr (entries (properties (blocks ev ! l)))" by (rule v(6))
    show "0 < ?P" by (rule v(7))
  qed
  have pos: "0 < ?P" using vals(7) [of 0] by simp
  have sh': "spherical_harmonics_calculator c (direction_vectors b) = Inr sh"
    using sh dv by simp
  have ks': "entries (keys ev) = map (\<lambda>l. [int l]) [0..<l_max c + 1]"
    using ks lb by simp
  have "\<forall>l \<le> l_max c.
        block_values (blocks ev ! l) =
          \<lparr>shape3 = (length (direction_vectors b), 2 * l + 1, k * snd (snd (shape3 (ts ! l)))),
           rows3 = map2 (\<lambda>r s. map (\<lambda>y. concat (map (map (\<lambda>x. x * y)) r)) s) (rows3 (ts ! l))
                     (map (\<lambda>row. split_sizes row (spherical_harmonics_split_list c) ! l) (rows2 sh))\<rparr> \<and>
        wf3 (block_values (blocks ev ! l)) \<and>
        wf3 (ts ! l) \<and> fst (shape3 (ts ! l)) = length (direction_vectors b) \<and>
        samples (blocks ev ! l) = csamples cv \<and>
        components (blocks ev ! l) = m_components l \<and>
        names (properties (blocks ev ! l)) = [''alpha_j'', ''n''] \<and>
        stack_last [np_repeat (map uminus (arange k)) (snd (snd (shape3 (ts ! l)))),
                    np_tile (arange (snd (snd (shape3 (ts ! l))))) k] ValueError
           = Inr (entries (properties (blocks ev ! l)))"
  proof (intro allI impI conjI)
    fix l assume l: "l \<le> l_max c"
    show "block_values (blocks ev ! l) =
          \<lparr>shape3 = (length (direction_vectors b), 2 * l + 1, k * snd (snd (shape3 (ts ! l)))),
           rows3 = map2 (\<lambda>r s. map (\<lambda>y. concat (map (map (\<lambda>x. x * y)) r)) s) (rows3 (ts ! l))
                     (map (\<lambda>row. split_sizes row (spherical_harmonics_split_list c) ! l) (rows2 sh))\<rparr>"
      using vals(1) [OF l] vals(10) [OF l] by simp
    show "wf3 (block_values (blocks ev ! l))" using l by (rule vals(2))
    show "wf3 (ts ! l)" using l by (rule vals(8))
    show "fst (shape3 (ts ! l)) = length (direction_vectors b)" using l by (rule vals(9))
    show "samples (blocks ev ! l) = csamples cv" using l by (rule vals(3))
    show "components (blocks ev ! l) = m_components l" using l by (rule vals(4))
    show "names (properties (blocks ev ! l)) = [''alpha_j'', ''n'']" using l by (rule vals(5))
    show "stack_last [np_repeat (map uminus (arange k)) (snd (snd (shape3 (ts ! l)))),
                    np_tile (arange (snd (snd (shape3 (ts ! l))))) k] ValueError
           = Inr (entries (properties (blocks ev ! l)))" using l by (rule vals(6))
  qed
  with cv ro sh' lb ks' pos show ?thesis by blast
qed


lemma getitem_Inr:
  assumes "getitem xs i = Inr v"
  shows "v = xs ! nat (i mod int (length xs))" and "- int (length xs) \<le> i" and "i < int (length xs)"
proof -
  let ?n = "int (length xs)"
  from assms have r: "(0 \<le> i \<and> i < ?n \<and> v = xs ! nat i) \<or> (- ?n \<le> i \<and> i < 0 \<and> v = xs ! nat (?n + i))"
    by (auto simp: getitem_def Let_def split: if_splits)
  then show "- ?n \<le> i" "i < ?n" by auto
  from r show "v = xs ! nat (i mod ?n)"
  proof
    assume "0 \<le> i \<and> i < ?n \<and> v = xs ! nat i"
    then show ?thesis by simp
  next
    assume a: "- ?n \<le> i \<and> i < 0 \<and> v = xs ! nat (?n + i)"
    then have "i mod ?n = ?n + i"
      by (metis add.commute add_nonneg_nonneg diff_ge_0_iff_ge minus_add_cancel mod_add_self2 mod_pos_pos_trivial add_less_same_cancel1 diff_minus_eq_add)
    with a show ?thesis by simp
  qed
qed

lemma index_tensor_Inr:
  assumes "index_tensor xs idx = Inr vs"
  shows "length vs = length idx"
    and "p < length idx \<Longrightarrow> vs ! p = xs ! nat (idx ! p mod int (length xs))"
    and "p < length idx \<Longrightarrow> - int (length xs) \<le> idx ! p \<and> idx ! p < int (length xs)"
proof -
  from assms have m: "length vs = length idx" "\<And>i. i < length idx \<Longrightarrow> getitem xs (idx ! i) = Inr (vs ! i)"
    by (simp_all add: index_tensor_def mapM_Inr_iff)
  show "length vs = length idx" by (rule m(1))
  assume p: "p < length idx"
  show "vs ! p = xs ! nat (idx ! p mod int (length xs))"
    using getitem_Inr(1) [OF m(2) [OF p]] .
  show "- int (length xs) \<le> idx ! p \<and> idx ! p < int (length xs)"
    using getitem_Inr(2,3) [OF m(2) [OF p]] by simp
qed

lemma pairs_offset_length:
  "pairs_offset b = Inr po \<Longrightarrow> length po = length (structure_pairs b)"
  by (auto simp: pairs_offset_def Let_def unique_inverse_def dest: index_tensor_Inr(1))

lemma get_cartesian_vectors_samples:
  assumes "get_cartesian_vectors b = Inr cv"
  shows "\<exists>po. pairs_offset b = Inr po \<and> length po = length (pairs b) \<and>
           length (structure_pairs b) = length (pairs b) \<and>
           length (cell_shifts b) = length (pairs b) \<and>
           names (csamples cv) = sample_names \<and>
           entries (csamples cv) = map (pair_label b po) [0..<length (pairs b)]"
proof -
  from assms obtain po shifted sc sn labs where
    po: "pairs_offset b = Inr po"
    and sh: "broadcast (\<lambda>(i, j) off. (i + off, j + off)) (pairs b) po = Inr shifted"
    and sc: "index_tensor (species b) (map fst shifted) = Inr sc"
    and sn: "index_tensor (species b) (map snd shifted) = Inr sn"
    and st: "stack_last
            [structure_pairs b, map fst (pairs b), map snd (pairs b), sc, sn,
             map fst (cell_shifts b), map (\<lambda>s. fst (snd s)) (cell_shifts b),
             map (\<lambda>s. snd (snd s)) (cell_shifts b)] RuntimeError = Inr labs"
    and cv: "cv = \<lparr>cvalues = direction_vectors b,
          csamples = \<lparr>names = sample_names, entries = map (map to_int32) labs\<rparr>\<rparr>"
    by (auto simp: get_cartesian_vectors_def bnd_eq_Inr)
  let ?n = "length (pairs b)"
  have lpo: "length po = length (structure_pairs b)" using po by (rule pairs_offset_length)
  from st have len: "length (structure_pairs b) = ?n" "length (cell_shifts b) = ?n"
    "length sc = ?n" "length sn = ?n"
    and labs: "labs = map (\<lambda>i. map (\<lambda>col. col ! i)
            [structure_pairs b, map fst (pairs b), map snd (pairs b), sc, sn,
             map fst (cell_shifts b), map (\<lambda>s. fst (snd s)) (cell_shifts b),
             map (\<lambda>s. snd (snd s)) (cell_shifts b)]) [0..<length (structure_pairs b)]"
    by (auto simp: stack_last_def split: if_splits)
  have shifted: "shifted = map2 (\<lambda>(i, j) off. (i + off, j + off)) (pairs b) po"
    using sh lpo len by (simp add: broadcast_def)
  have "map to_int32 (labs ! p) = pair_label b po p" if p: "p < ?n" for p
  proof -
    have s1: "map fst shifted ! p = fst (pairs b ! p) + po ! p"
      and s2: "map snd shifted ! p = snd (pairs b ! p) + po ! p"
      using p lpo len by (simp_all add: shifted split: prod.splits)
    have lp: "p < length (map fst shifted)" "p < length (map snd shifted)"
      using p lpo len by (simp_all add: shifted)
    have "sc ! p = species b ! nat ((fst (pairs b ! p) + po ! p) mod int (length (species b)))"
      using index_tensor_Inr(2) [OF sc lp(1)] s1 by simp
    moreover have "sn ! p = species b ! nat ((snd (pairs b ! p) + po ! p) mod int (length (species b)))"
      using index_tensor_Inr(2) [OF sn lp(2)] s2 by simp
    ultimately show ?thesis
      using p len by (simp add: labs pair_label_def)
  qed
  moreover have "length labs = ?n" using len by (simp add: labs)
  ultimately have "map (map to_int32) labs = map (pair_label b po) [0..<?n]"
    by (intro nth_equalityI) simp_all
  with po lpo len cv show ?thesis by simp
qed

lemma split_nth_upt_Suc: "l \<le> n \<Longrightarrow> [0..<n + 1] ! l = l"
  by (metis add.commute add.left_neutral less_Suc_eq_le nth_upt Suc_eq_plus1)

lemma block_l_nth:
  assumes "entries (keys ev) = map (\<lambda>l. [int l]) [0..<n + 1]" and "length (blocks ev) = n + 1"
    and "l \<le> n"
  shows "block_l ev l = Inr (blocks ev ! l)"
proof -
  have "index_of (map (\<lambda>l. [int l]) [0..<n + 1]) [int l] = l"
    using assms(3) by (intro index_of_keys) simp
  then show ?thesis using assms by (simp add: block_l_def)
qed

lemma vector_expansion_blocks:
  assumes ve: "vector_expansion c b = Inr ev"
    and rc: "radial_contract c b" and hc: "harmonics_contract c b"
  shows "length (blocks ev) = l_max c + 1"
    and "entries (keys ev) = map (\<lambda>l. [int l]) [0..<l_max c + 1]"
    and "0 < length (direction_vectors b)"
    and "l \<le> l_max c \<Longrightarrow> block_l ev l = Inr (blocks ev ! l)"
    and "l \<le> l_max c \<Longrightarrow> wf3 (block_values (blocks ev ! l))"
    and "l \<le> l_max c \<Longrightarrow> shape3 (block_values (blocks ev ! l))
           = (length (direction_vectors b), 2 * l + 1, n_columns c b l)"
    and "l \<le> l_max c \<Longrightarrow> p < length (direction_vectors b) \<Longrightarrow>
           rows3 (block_values (blocks ev ! l)) ! p = pair_expansion c b l p"
    and "l \<le> l_max c \<Longrightarrow> get_cartesian_vectors b = Inr cv \<Longrightarrow>
           samples (blocks ev ! l) = csamples cv"
    and "l \<le> l_max c \<Longrightarrow> components (blocks ev ! l) = m_components l"
proof -
  let ?P = "length (direction_vectors b)"
  have all: "length (blocks ev) = l_max c + 1 \<and>
    entries (keys ev) = map (\<lambda>l. [int l]) [0..<l_max c + 1] \<and> 0 < ?P \<and>
    (\<forall>l \<le> l_max c. wf3 (block_values (blocks ev ! l)) \<and>
       shape3 (block_values (blocks ev ! l)) = (?P, 2 * l + 1, n_columns c b l) \<and>
       (\<forall>p < ?P. rows3 (block_values (blocks ev ! l)) ! p = pair_expansion c b l p) \<and>
       (\<forall>cv. get_cartesian_vectors b = Inr cv \<longrightarrow> samples (blocks ev ! l) = csamples cv) \<and>
       components (blocks ev ! l) = m_components l)"
  proof (cases "radial_basis_calculator c")
    case (Standard rbc)
    from vector_expansion_standard [OF ve Standard rc hc] obtain cv ts sh where
      f: "get_cartesian_vectors b = Inr cv" "radial_output c b = Some (Inl ts)"
        "spherical_harmonics_calculator c (direction_vectors b) = Inr sh"
        "length (blocks ev) = l_max c + 1"
        "entries (keys ev) = map (\<lambda>l. [int l]) [0..<l_max c + 1]" "0 < ?P"
      and g: "\<And>l. l \<le> l_max c \<Longrightarrow> block_values (blocks ev ! l) =
          \<lparr>shape3 = (?P, 2 * l + 1, snd (shape2 (ts ! l))),
           rows3 = map2 (\<lambda>r s. map (\<lambda>y. map (\<lambda>x. x * y) r) s) (rows2 (ts ! l))
                     (map (\<lambda>row. split_sizes row (spherical_harmonics_split_list c) ! l) (rows2 sh))\<rparr> \<and>
        wf3 (block_values (blocks ev ! l)) \<and>
        wf2 (ts ! l) \<and> fst (shape2 (ts ! l)) = ?P \<and>
        samples (blocks ev ! l) = csamples cv \<and>
        components (blocks ev ! l) = m_components l"
      by blast
    have wsh: "length (rows2 sh) = ?P"
      using hc f(3) by (simp add: harmonics_contract_def wf2_def)
    have "wf3 (block_values (blocks ev ! l)) \<and>
       shape3 (block_values (blocks ev ! l)) = (?P, 2 * l + 1, n_columns c b l) \<and>
       (\<forall>p < ?P. rows3 (block_values (blocks ev ! l)) ! p = pair_expansion c b l p) \<and>
       (\<forall>cv. get_cartesian_vectors b = Inr cv \<longrightarrow> samples (blocks ev ! l) = csamples cv) \<and>
       components (blocks ev ! l) = m_components l" if l: "l \<le> l_max c" for l
    proof -
      note gl = g [OF l]
      have lr: "length (rows2 (ts ! l)) = ?P" using gl by (simp add: wf2_def)
      have "shape3 (block_values (blocks ev ! l)) = (?P, 2 * l + 1, n_columns c b l)"
        using gl Standard f(2) by (simp add: n_columns_def n_radial_def)
      moreover have "rows3 (block_values (blocks ev ! l)) ! p = pair_expansion c b l p"
        if "p < ?P" for p
        using gl that lr wsh f(2,3) by (simp add: pair_expansion_def harmonics_row_def)
      moreover have "wf3 (block_values (blocks ev ! l))" using gl by blast
      moreover have "samples (blocks ev ! l) = csamples cv" using gl by blast
      moreover have "components (blocks ev ! l) = m_components l" using gl by blast
      ultimately show ?thesis using f(1) by simp
    qed
    with f show ?thesis by blast
  next
    case (Alchemical k rbc)
    from vector_expansion_alchemical [OF ve Alchemical rc hc] obtain cv ts sh where
      f: "get_cartesian_vectors b = Inr cv" "radial_output c b = Some (Inr ts)"
        "spherical_harmonics_calculator c (direction_vectors b) = Inr sh"
        "length (blocks ev) = l_max c + 1"
        "entries (keys ev) = map (\<lambda>l. [int l]) [0..<l_max c + 1]" "0 < ?P"
      and g: "\<And>l. l \<le> l_max c \<Longrightarrow> block_values (blocks ev ! l) =
          \<lparr>shape3 = (?P, 2 * l + 1, k * snd (snd (shape3 (ts ! l)))),
           rows3 = map2 (\<lambda>r s. map (\<lambda>y. concat (map (map (\<lambda>x. x * y)) r)) s) (rows3 (ts ! l))
                     (map (\<lambda>row. split_sizes row (spherical_harmonics_split_list c) ! l) (rows2 sh))\<rparr> \<and>
        wf3 (block_values (blocks ev ! l)) \<and>
        wf3 (ts ! l) \<and> fst (shape3 (ts ! l)) = ?P \<and>
        samples (blocks ev ! l) = csamples cv \<and>
        components (blocks ev ! l) = m_components l"
      by blast
    have wsh: "length (rows2 sh) = ?P"
      using hc f(3) by (simp add: harmonics_contract_def wf2_def)
    have "wf3 (block_values (blocks ev ! l)) \<and>
       shape3 (block_values (blocks ev ! l)) = (?P, 2 * l + 1, n_columns c b l) \<and>
       (\<forall>p < ?P. rows3 (block_values (blocks ev ! l)) ! p = pair_expansion c b l p) \<and>
       (\<forall>cv. get_cartesian_vectors b = Inr cv \<longrightarrow> samples (blocks ev ! l) = csamples cv) \<and>
       components (blocks ev ! l) = m_components l" if l: "l \<le> l_max c" for l
    proof -
      note gl = g [OF l]
      have lr: "length (rows3 (ts ! l)) = ?P" using gl by (simp add: wf3_def)
      have "shape3 (block_values (blocks ev ! l)) = (?P, 2 * l + 1, n_columns c b l)"
        using gl Alchemical f(2) by (simp add: n_columns_def n_radial_def)
      moreover have "rows3 (block_values (blocks ev ! l)) ! p = pair_expansion c b l p"
        if "p < ?P" for p
        using gl that lr wsh f(2,3) by (simp add: pair_expansion_def harmonics_row_def)
      moreover have "wf3 (block_values (blocks ev ! l))" using gl by blast
      moreover have "samples (blocks ev ! l) = csamples cv" using gl by blast
      moreover have "components (blocks ev ! l) = m_components l" using gl by blast
      ultimately show ?thesis using f(1) by simp
    qed
    with f show ?thesis by blast
  qed
  from all show "length (blocks ev) = l_max c + 1"
    and k: "entries (keys ev) = map (\<lambda>l. [int l]) [0..<l_max c + 1]"
    and "0 < ?P" by simp_all
  assume l: "l \<le> l_max c"
  from all l show "wf3 (block_values (blocks ev ! l))"
    and "shape3 (block_values (blocks ev ! l)) = (?P, 2 * l + 1, n_columns c b l)"
    and "components (blocks ev ! l) = m_components l" by simp_all
  from all l show "block_l ev l = Inr (blocks ev ! l)"
    by (intro block_l_nth) simp_all
  from all l show "p < ?P \<Longrightarrow> rows3 (block_values (blocks ev ! l)) ! p = pair_expansion c b l p"
    by simp
  from all l show "get_cartesian_vectors b = Inr cv \<Longrightarrow> samples (blocks ev ! l) = csamples cv"
    by simp
qed


text \<open>
  When the Vector Expansion returns on a batch with as many direction vectors as pairs, and
  the radial basis and the spherical harmonics have kept their contracts, then the block of
  every degree \<open>l \<le> l_max\<close> has one row per input pair, in the order of the input: the
  sample labels of row \<open>p\<close> are the labels stored for input pair \<open>p\<close>, and the values of row
  \<open>p\<close> are the products of the radial basis and the spherical harmonics of pair \<open>p\<close>.
\<close>

lemma vector_expansion_rows_in_order:
  assumes "vector_expansion c b = Inr ev"
    and "radial_contract c b" and "harmonics_contract c b"
    and "length (direction_vectors b) = length (pairs b)"
    and "l \<le> l_max c"
  shows "block_l ev l = Inr (blocks ev ! l) \<and>
     fst (shape3 (block_values (blocks ev ! l))) = length (pairs b) \<and>
     length (rows3 (block_values (blocks ev ! l))) = length (pairs b) \<and>
     length (entries (samples (blocks ev ! l))) = length (pairs b) \<and>
     (\<exists>po. pairs_offset b = Inr po \<and>
        (\<forall>p < length (pairs b).
           entries (samples (blocks ev ! l)) ! p = pair_label b po p \<and>
           rows3 (block_values (blocks ev ! l)) ! p = pair_expansion c b l p))"
proof -
  note ve = vector_expansion_blocks [OF assms(1-3)]
  from assms(1) obtain cv where cv: "get_cartesian_vectors b = Inr cv"
    by (auto simp: vector_expansion_def bnd_eq_Inr)
  from get_cartesian_vectors_samples [OF cv] obtain po where
    po: "pairs_offset b = Inr po"
    and en: "entries (csamples cv) = map (pair_label b po) [0..<length (pairs b)]"
    by blast
  have smp: "samples (blocks ev ! l) = csamples cv" using ve(8) [OF assms(5) cv] .
  have sh: "shape3 (block_values (blocks ev ! l)) = (length (pairs b), 2 * l + 1, n_columns c b l)"
    using ve(6) [OF assms(5)] assms(4) by simp
  have wf: "wf3 (block_values (blocks ev ! l))" using ve(5) [OF assms(5)] .
  have 1: "block_l ev l = Inr (blocks ev ! l)" using ve(4) [OF assms(5)] .
  have 2: "fst (shape3 (block_values (blocks ev ! l))) = length (pairs b)" using sh by simp
  have 3: "length (rows3 (block_values (blocks ev ! l))) = length (pairs b)"
    using wf sh by (simp add: wf3_def)
  have 4: "length (entries (samples (blocks ev ! l))) = length (pairs b)"
    using smp en by simp
  have 5: "entries (samples (blocks ev ! l)) ! p = pair_label b po p \<and>
           rows3 (block_values (blocks ev ! l)) ! p = pair_expansion c b l p"
    if "p < length (pairs b)" for p
    using that smp en ve(7) [OF assms(5), of p] assms(4) by simp
  from 1 2 3 4 5 po show ?thesis by blast
qed

subsection \<open>The scatter-addition\<close>

lemma length_index_add_rows [simp]: "length (index_add_rows acc xs) = length acc"
  by (induction acc xs rule: index_add_rows.induct) auto

lemma add_row_nth:
  "length x = b \<Longrightarrow> length y = b \<Longrightarrow> m < b \<Longrightarrow> length (x ! m) = c \<Longrightarrow> length (y ! m) = c \<Longrightarrow>
     n < c \<Longrightarrow> add_row x y ! m ! n = x ! m ! n + y ! m ! n"
  by (simp add: add_row_def)

lemma add_row_wf:
  assumes "length x = b" "length y = b" "\<forall>u \<in> set x. length u = c" "\<forall>u \<in> set y. length u = c"
  shows "length (add_row x y) = b \<and> (\<forall>u \<in> set (add_row x y). length u = c)"
proof -
  have "length (add_row x y) = b" using assms by (simp add: add_row_def)
  moreover have "length u = c" if "u \<in> set (add_row x y)" for u
  proof -
    from that obtain m where m: "m < length (add_row x y)" "u = add_row x y ! m"
      by (metis in_set_conv_nth)
    then have "m < b" using assms by (simp add: add_row_def)
    then have "length (x ! m) = c" "length (y ! m) = c" using assms by simp_all
    then show ?thesis using m \<open>m < b\<close> assms by (simp add: add_row_def)
  qed
  ultimately show ?thesis by blast
qed

lemma wf_updates_Cons:
  "wf_updates a b c ((i, row) # xs) \<longleftrightarrow>
     0 \<le> i \<and> i < int a \<and> length row = b \<and> (\<forall>u \<in> set row. length u = c) \<and> wf_updates a b c xs"
  by (auto simp: wf_updates_def)

lemma index_add_rows_wf:
  "wf_rows b c acc \<Longrightarrow> wf_updates (length acc) b c xs \<Longrightarrow> wf_rows b c (index_add_rows acc xs)"
proof (induction acc xs rule: index_add_rows.induct)
  case (1 acc)
  then show ?case by simp
next
  case (2 acc i row rest)
  from "2.prems" have u: "0 \<le> i" "i < int (length acc)" "length row = b" "\<forall>u \<in> set row. length u = c"
    and rest: "wf_updates (length acc) b c rest"
    by (simp_all add: wf_updates_Cons)
  have k: "nat i < length acc" using u by simp
  have x: "length (acc ! nat i) = b" "\<forall>u \<in> set (acc ! nat i). length u = c"
    using "2.prems"(1) nth_mem [OF k] by (auto simp: wf_rows_def)
  have "wf_rows b c (acc[nat i := add_row (acc ! nat i) row])"
    unfolding wf_rows_def
  proof
    fix z assume "z \<in> set (acc[nat i := add_row (acc ! nat i) row])"
    then have "z \<in> set acc \<or> z = add_row (acc ! nat i) row"
      using set_update_subset_insert [of acc "nat i" "add_row (acc ! nat i) row"] by auto
    then show "length z = b \<and> (\<forall>y \<in> set z. length y = c)"
      using "2.prems"(1) add_row_wf [OF x(1) u(3) x(2) u(4)] by (auto simp: wf_rows_def)
  qed
  then show ?case using "2.IH" rest by simp
qed

lemma index_add_rows_nth:
  "wf_rows b c acc \<Longrightarrow> wf_updates (length acc) b c xs \<Longrightarrow> k < length acc \<Longrightarrow> m < b \<Longrightarrow> n < c \<Longrightarrow>
     index_add_rows acc xs ! k ! m ! n =
       acc ! k ! m ! n + sum_list (map (\<lambda>(i, row). row ! m ! n) (filter (\<lambda>(i, row). i = int k) xs))"
proof (induction acc xs rule: index_add_rows.induct)
  case (1 acc)
  then show ?case by simp
next
  case (2 acc i row rest)
  from "2.prems" have u: "0 \<le> i" "i < int (length acc)" "length row = b" "\<forall>u \<in> set row. length u = c"
    and rest: "wf_updates (length acc) b c rest"
    by (simp_all add: wf_updates_Cons)
  let ?acc = "acc[nat i := add_row (acc ! nat i) row]"
  have ki: "nat i < length acc" using u by simp
  have x: "length (acc ! nat i) = b" "\<forall>u \<in> set (acc ! nat i). length u = c"
    using "2.prems"(1) nth_mem [OF ki] by (auto simp: wf_rows_def)
  have wf: "wf_rows b c ?acc"
    using index_add_rows_wf [of b c acc "[(i, row)]"] "2.prems"(1) u
    by (simp add: wf_updates_def)
  have IH: "index_add_rows ?acc rest ! k ! m ! n =
       ?acc ! k ! m ! n + sum_list (map (\<lambda>(i, row). row ! m ! n) (filter (\<lambda>(i, row). i = int k) rest))"
    using "2.IH" [OF wf] rest "2.prems"(3,4,5) by simp
  have "?acc ! k ! m ! n = acc ! k ! m ! n + (if i = int k then row ! m ! n else 0)"
  proof (cases "i = int k")
    case True
    then have "?acc ! k = add_row (acc ! k) row" using "2.prems"(3) by simp
    moreover have "length (acc ! k ! m) = c" "length (row ! m) = c"
      using x u True "2.prems"(4) by simp_all
    ultimately show ?thesis
      using True x u "2.prems"(4,5) add_row_nth [of "acc ! k" b row m c n] by simp
  next
    case False
    then have "nat i \<noteq> k" using u by auto
    then show ?thesis using False by simp
  qed
  with IH show ?case by simp
qed

lemma sum_list_filter_zip:
  assumes "length idx = length rows"
  shows "sum_list (map (\<lambda>(i, row). f row) (filter (\<lambda>(i, row). i = k) (zip idx rows))) =
         pair_sum (\<lambda>p. idx ! p = k) (\<lambda>p. f (rows ! p)) (length rows)"
proof -
  have z: "zip idx rows = map (\<lambda>p. (idx ! p, rows ! p)) [0..<length rows]"
    using assms by (intro nth_equalityI) simp_all
  show ?thesis
    unfolding z pair_sum_def by (simp add: filter_map comp_def)
qed

lemma index_add_Inr:
  assumes ia: "index_add self index source = Inr acc"
    and self: "wf3 self" and src: "wf3 source"
  shows "shape3 acc = shape3 self" and "wf3 acc"
    and "length index = fst (shape3 source)"
    and "\<And>p. p < length index \<Longrightarrow> 0 \<le> index ! p \<and> index ! p < int (fst (shape3 self))"
    and "\<And>k m n. k < fst (shape3 self) \<Longrightarrow> m < fst (snd (shape3 self)) \<Longrightarrow> n < snd (snd (shape3 self)) \<Longrightarrow>
           rows3 acc ! k ! m ! n = rows3 self ! k ! m ! n +
             pair_sum (\<lambda>p. index ! p = int k) (\<lambda>p. rows3 source ! p ! m ! n) (fst (shape3 source))"
proof -
  let ?b = "fst (snd (shape3 self))" and ?c = "snd (snd (shape3 self))"
  from ia have len: "length index = fst (shape3 source)"
    and sh: "snd (shape3 self) = snd (shape3 source)"
    and rng: "\<And>i. i \<in> set index \<Longrightarrow> 0 \<le> i \<and> i < int (fst (shape3 self))"
    and acc: "acc = self\<lparr>rows3 := index_add_rows (rows3 self) (zip index (rows3 source))\<rparr>"
    by (auto simp: index_add_def split: if_splits) 
  show "length index = fst (shape3 source)" by (rule len)
  show "\<And>p. p < length index \<Longrightarrow> 0 \<le> index ! p \<and> index ! p < int (fst (shape3 self))"
    using rng by simp
  have ls: "length (rows3 self) = fst (shape3 self)" and ws: "wf_rows ?b ?c (rows3 self)"
    using self by (simp_all add: wf3_def)
  have lsrc: "length (rows3 source) = fst (shape3 source)" and wsrc: "wf_rows ?b ?c (rows3 source)"
    using src sh by (simp_all add: wf3_def)
  have upd: "wf_updates (length (rows3 self)) ?b ?c (zip index (rows3 source))"
    unfolding wf_updates_def
  proof (intro ballI, clarify)
    fix i row assume "(i, row) \<in> set (zip index (rows3 source))"
    then have "i \<in> set index" "row \<in> set (rows3 source)"
      by (auto dest: set_zip_leftD set_zip_rightD)
    then show "0 \<le> i \<and> i < int (length (rows3 self)) \<and> length row = ?b \<and> (\<forall>u \<in> set row. length u = ?c)"
      using rng ls wsrc by (simp add: wf_rows_def)
  qed
  show "shape3 acc = shape3 self" by (simp add: acc)
  show "wf3 acc"
    using index_add_rows_wf [OF ws upd] ls by (simp add: acc wf3_def)
  fix k m n assume k: "k < fst (shape3 self)" and m: "m < ?b" and n: "n < ?c"
  have "rows3 acc ! k ! m ! n = rows3 self ! k ! m ! n +
      sum_list (map (\<lambda>(i, row). row ! m ! n) (filter (\<lambda>(i, row). i = int k) (zip index (rows3 source))))"
    using index_add_rows_nth [OF ws upd _ m n, of k] k ls by (simp add: acc)
  also have "sum_list (map (\<lambda>(i, row). row ! m ! n) (filter (\<lambda>(i, row). i = int k) (zip index (rows3 source))))
      = pair_sum (\<lambda>p. index ! p = int k) (\<lambda>p. rows3 source ! p ! m ! n) (fst (shape3 source))"
    using sum_list_filter_zip [of index "rows3 source" "\<lambda>row. row ! m ! n" "int k"] len lsrc by simp
  finally show "rows3 acc ! k ! m ! n = rows3 self ! k ! m ! n +
             pair_sum (\<lambda>p. index ! p = int k) (\<lambda>p. rows3 source ! p ! m ! n) (fst (shape3 source))" .
qed

lemma wf3_zeros3: "wf3 (zeros3 a b c)"
  by (simp add: wf3_def zeros3_def wf_rows_def)

lemma zeros3_nth: "k < a \<Longrightarrow> m < b \<Longrightarrow> n < c \<Longrightarrow> rows3 (zeros3 a b c) ! k ! m ! n = 0"
  by (simp add: zeros3_def)

lemma shape3_zeros3 [simp]: "shape3 (zeros3 a b c) = (a, b, c)"
  by (simp add: zeros3_def)

subsection \<open>The densities of one degree\<close>

lemma reshape4_flat3:
  assumes wf: "wf_rows c d rows" and len: "length rows = a * b" and pos: "0 < a * b * c"
  shows "reshape4 a b c (flat3 rows) = Inr \<lparr>shape4 = (a, b, c, d), rows4 = chunks a b rows\<rparr>"
proof -
  have "length (flat3 rows) = a * b * c * d"
    using length_flat3 [OF wf] len by simp
  then have "infer_dim (a * b * c) (length (flat3 rows)) = Inr d"
    using infer_dim_mult [of "a * b * c" d] pos by simp
  moreover have "chunks (a * b * c) d (flat3 rows) = concat rows"
    using chunks_flat3 [OF wf] len by simp
  moreover have "chunks (a * b) c (concat rows) = rows"
    using chunks_concat_rows [OF wf] len by simp
  ultimately show ?thesis by (simp add: reshape4_def)
qed

lemma chunks_nth_nth:
  assumes "length xs = a * b" and "i < a" and "j < b"
  shows "chunks a b xs ! i ! j = xs ! (i * b + j)"
proof -
  have "i * b + b \<le> a * b"
    using assms(2) by (metis Suc_leI mult_Suc mult_le_mono1 add.commute)
  then have "i * b \<le> length xs" using assms(1,2) by simp
  then show ?thesis using assms by (simp add: nth_chunks)
qed

lemma chunks_nth_length:
  assumes "length xs = a * b" and "i < a"
  shows "length (chunks a b xs ! i) = b"
proof -
  have "i * b + b \<le> a * b"
    using assms(2) by (metis Suc_leI mult_Suc mult_le_mono1 add.commute)
  then show ?thesis using assms by (simp add: nth_chunks)
qed

lemma index_in_grid: "i < a \<Longrightarrow> j < b \<Longrightarrow> i * b + j < a * (b::nat)"
proof -
  assume i: "i < a" and j: "j < b"
  have "i * b + b \<le> a * b"
    using i by (metis Suc_leI mult_Suc mult_le_mono1 add.commute)
  with j show ?thesis by simp
qed

lemma densities_l_standard_Inr:
  assumes d: "densities_l_standard C S idx ev l = Inr t"
    and blk: "block_l ev l = Inr vb" and wf: "wf3 (block_values vb)"
    and sh: "shape3 (block_values vb) = (P, 2 * l + 1, K)"
  shows "\<exists>acc. index_add (zeros3 (C * S) (2 * l + 1) K) idx (block_values vb) = Inr acc \<and>
     shape3 t = (C, 2 * l + 1, S * K) \<and> wf3 t \<and> 0 < C \<and> 0 < S \<and>
     (\<forall>c < C. \<forall>m < 2 * l + 1. \<forall>s < S. \<forall>n < K.
        rows3 t ! c ! m ! (s * K + n) = rows3 acc ! (c * S + s) ! m ! n)"
proof -
  define M where "M = 2 * l + 1"
  have Mpos: "0 < M" by (simp add: M_def)
  from d blk sh obtain acc t4 where
    acc: "index_add (zeros3 (C * S) M K) idx (block_values vb) = Inr acc"
    and t4: "reshape4 C S M (flat3 (rows3 acc)) = Inr t4"
    and t: "reshape3 C M (flat4 (rows4 (swapaxes_1_2 t4))) = Inr t"
    by (auto simp: densities_l_standard_def bnd_eq_Inr Let_def M_def)
  have sh': "shape3 (block_values vb) = (P, M, K)" using sh by (simp add: M_def)
  have sa: "shape3 acc = (C * S, M, K)" and wa: "wf3 acc"
    using index_add_Inr(1,2) [OF acc wf3_zeros3 wf] by simp_all
  then have la: "length (rows3 acc) = C * S" and wr: "wf_rows M K (rows3 acc)"
    by (simp_all add: wf3_def)
  have pos: "0 < C" "0 < S" using t4 by (auto dest: reshape4_Inr_pos)
  have t4eq: "t4 = \<lparr>shape4 = (C, S, M, K), rows4 = chunks C S (rows3 acc)\<rparr>"
    using reshape4_flat3 [OF wr la] pos t4 Mpos by simp
  let ?sw = "map (\<lambda>x. map (\<lambda>k. map (\<lambda>j. x ! j ! k) [0..<S]) [0..<M]) (chunks C S (rows3 acc))"
  have sw: "rows4 (swapaxes_1_2 t4) = ?sw"
    by (simp add: swapaxes_1_2_def t4eq)
  have ch: "chunks C S (rows3 acc) ! c ! s = rows3 acc ! (c * S + s)" if "c < C" "s < S" for c s
    using chunks_nth_nth [OF la that] .
  have wsw: "wf_rows4 M S K ?sw"
  proof (rule wf_rows4I)
    fix c assume "c < length ?sw"
    then have c: "c < C" by simp
    have "wf_rows S K (?sw ! c)"
    proof (rule wf_rowsI)
      fix m assume "m < length (?sw ! c)"
      then show "length (?sw ! c ! m) = S" using c by simp
    next
      fix m s assume m: "m < length (?sw ! c)" and s: "s < S"
      then have m': "m < M" using c by simp
      have "length (rows3 acc ! (c * S + s) ! m) = K"
        using wr la index_in_grid [OF c s] m' by (intro wf_rows_nth_nth [of M K]) simp_all
      then show "length (?sw ! c ! m ! s) = K"
        using c s m' ch [OF c s] by simp
    qed
    then show "length (?sw ! c) = M \<and> wf_rows S K (?sw ! c)" using c by simp
  qed
  have "reshape3 (length ?sw) M (flat4 ?sw) =
      Inr \<lparr>shape3 = (length ?sw, M, S * K), rows3 = map (map concat) ?sw\<rparr>"
    using wsw pos Mpos by (intro reshape3_flat4) simp_all
  with t sw have teq: "t = \<lparr>shape3 = (C, M, S * K), rows3 = map (map concat) ?sw\<rparr>"
    by simp
  have wt: "wf3 t"
    using wf_rows_map_concat [OF wsw] by (simp add: teq wf3_def)
  have el: "rows3 t ! c ! m ! (s * K + n) = rows3 acc ! (c * S + s) ! m ! n"
    if c: "c < C" and m: "m < M" and s: "s < S" and n: "n < K" for c m s n
  proof -
    let ?xs = "map (\<lambda>j. chunks C S (rows3 acc) ! c ! j ! m) [0..<S]"
    have "rows3 t ! c ! m = concat ?xs"
      using c m by (simp add: teq)
    moreover have "concat ?xs ! (s * K + n) = ?xs ! s ! n"
    proof (rule nth_concat_uniform)
      fix x assume "x \<in> set ?xs"
      then obtain j where j: "j < S" "x = chunks C S (rows3 acc) ! c ! j ! m" by auto
      have "length (rows3 acc ! (c * S + j) ! m) = K"
        using wr la index_in_grid [OF c j(1)] m by (intro wf_rows_nth_nth [of M K]) simp_all
      then show "length x = K" using j ch [OF c j(1)] by simp
    qed (use s n in simp_all)
    ultimately show ?thesis using s ch [OF c s] by simp
  qed
  from acc teq wt pos el show ?thesis unfolding M_def by auto
qed

lemma densities_l_alchemical_Inr:
  assumes d: "densities_l_alchemical C idx ev l = Inr t"
    and blk: "block_l ev l = Inr vb" and wf: "wf3 (block_values vb)"
    and sh: "shape3 (block_values vb) = (P, 2 * l + 1, K)"
  shows "index_add (zeros3 C (2 * l + 1) K) idx (block_values vb) = Inr t \<and>
     shape3 t = (C, 2 * l + 1, K) \<and> wf3 t \<and> 0 < C"
proof -
  let ?M = "2 * l + 1"
  from d blk sh obtain acc where
    acc: "index_add (zeros3 C ?M K) idx (block_values vb) = Inr acc"
    and t: "reshape3 C ?M (flat3 (rows3 acc)) = Inr t"
    by (auto simp: densities_l_alchemical_def bnd_eq_Inr Let_def)
  have sa: "shape3 acc = (C, ?M, K)" and wa: "wf3 acc"
    using index_add_Inr(1,2) [OF acc wf3_zeros3 wf] by simp_all
  then have la: "length (rows3 acc) = C" and wr: "wf_rows ?M K (rows3 acc)"
    by (simp_all add: wf3_def)
  have pos: "0 < C" using t by (auto dest: reshape3_Inr_pos)
  have "reshape3 (length (rows3 acc)) ?M (flat3 (rows3 acc)) =
      Inr \<lparr>shape3 = (length (rows3 acc), ?M, K), rows3 = rows3 acc\<rparr>"
    using wr pos la by (intro reshape3_flat3) simp_all
  with t la have "t = \<lparr>shape3 = (C, ?M, K), rows3 = rows3 acc\<rparr>" by simp
  also have "\<dots> = acc" using sa by (cases acc) simp
  finally have "t = acc" .
  with acc sa wa pos show ?thesis by simp
qed

subsection \<open>The densities of a batch\<close>

lemma pair_sum_cong:
  "(\<And>p. p < n \<Longrightarrow> sel p = sel' p) \<Longrightarrow> (\<And>p. p < n \<Longrightarrow> f p = f' p) \<Longrightarrow>
     pair_sum sel f n = pair_sum sel' f' n"
proof -
  assume s: "\<And>p. p < n \<Longrightarrow> sel p = sel' p" and f: "\<And>p. p < n \<Longrightarrow> f p = f' p"
  have "filter sel [0..<n] = filter sel' [0..<n]"
    using s by (intro filter_cong) simp_all
  moreover have "map f (filter sel' [0..<n]) = map f' (filter sel' [0..<n])"
    using f by (intro map_cong) simp_all
  ultimately show ?thesis by (simp only: pair_sum_def)
qed

lemma s_i_metadata_to_unique_Inr:
  assumes "s_i_metadata_to_unique b = Inr s_i" and "pairs_offset b = Inr po"
    and "length po = length (pairs b)"
  shows "s_i = map (shifted_center b po) [0..<length (pairs b)]"
proof -
  from assms have "s_i = map2 (+) (map fst (pairs b)) po"
    by (simp add: s_i_metadata_to_unique_def broadcast_def)
  then show ?thesis
    using assms(3) by (intro nth_equalityI) (simp_all add: shifted_center_def)
qed

lemma index_of_species_neighbor: "index_of sample_names ''species_neighbor'' = 4"
  by (simp add: sample_names_def)

lemma column_species_neighbor:
  assumes "names lb = sample_names" and "entries lb = map (pair_label b po) [0..<n]"
  shows "column lb ''species_neighbor'' = map (species_neighbor_label b po) [0..<n]"
  using assms
  by (simp add: column_def index_of_species_neighbor pair_label_def species_neighbor_label_def)

lemma grid_index_eq:
  fixes x :: int
  assumes "0 \<le> a" "a < int S" "s < S"
  shows "x * int S + a = int (ctr * S + s) \<longleftrightarrow> x = int ctr \<and> a = int s"
proof
  assume e: "x * int S + a = int (ctr * S + s)"
  have S: "0 < int S" using assms by simp
  have "(x * int S + a) div int S = x"
    using assms S by (simp add: div_pos_pos_trivial)
  moreover have "(int ctr * int S + int s) div int S = int ctr"
    using assms S by (simp add: div_pos_pos_trivial)
  ultimately have "x = int ctr" using e by simp
  with e show "x = int ctr \<and> a = int s" by simp
next
  assume "x = int ctr \<and> a = int s"
  then show "x * int S + a = int (ctr * S + s)" by simp
qed

lemma density_indices_standard_Inr:
  assumes di: "density_indices_standard c b smp = Inr idx"
    and po: "pairs_offset b = Inr po" "length po = length (pairs b)"
    and col: "column smp ''species_neighbor'' = map (species_neighbor_label b po) [0..<length (pairs b)]"
  shows "length idx = length (pairs b)"
    and "p < length (pairs b) \<Longrightarrow> \<exists>a < length (all_species c).
           species_to_index c (species_neighbor_label b po p) = Inr (int a) \<and>
           idx ! p = shifted_center b po p * int (length (all_species c)) + int a"
proof -
  let ?P = "length (pairs b)"
  from di obtain s_i aj where s_i: "s_i_metadata_to_unique b = Inr s_i"
    and aj: "mapM (species_to_index c) (column smp ''species_neighbor'') = Inr aj"
    and bc: "broadcast (\<lambda>s a. s * int (length (all_species c)) + a) s_i aj = Inr idx"
    by (auto simp: density_indices_standard_def bnd_eq_Inr)
  have s_eq: "s_i = map (shifted_center b po) [0..<?P]"
    using s_i po by (rule s_i_metadata_to_unique_Inr)
  have laj: "length aj = ?P" using aj col by (simp add: mapM_Inr_iff)
  have idx: "idx = map2 (\<lambda>s a. s * int (length (all_species c)) + a) s_i aj"
    using bc s_eq laj by (simp add: broadcast_def)
  show "length idx = ?P" using s_eq laj by (simp add: idx)
  assume p: "p < ?P"
  have lk: "species_to_index c (species_neighbor_label b po p) = Inr (aj ! p)"
    using aj col p by (simp add: mapM_Inr_iff)
  then have "species_neighbor_label b po p \<in> set (all_species c)"
    using species_to_index_unknown [of "species_neighbor_label b po p" c] by auto
  then obtain a where a: "a < length (all_species c)"
    "species_to_index c (species_neighbor_label b po p) = Inr (int a)"
    using species_to_index_known by blast
  with lk have "aj ! p = int a" by simp
  then have "idx ! p = shifted_center b po p * int (length (all_species c)) + int a"
    using p s_eq laj by (simp add: idx)
  with a show "\<exists>a < length (all_species c).
           species_to_index c (species_neighbor_label b po p) = Inr (int a) \<and>
           idx ! p = shifted_center b po p * int (length (all_species c)) + int a"
    by blast
qed


lemma mapM_upt_nth:
  assumes "mapM f [0..<n + 1] = Inr ys"
  shows "length ys = n + 1" and "l \<le> n \<Longrightarrow> f l = Inr (ys ! l)"
proof -
  from assms show "length ys = n + 1" by (simp add: mapM_Inr_iff del: upt_Suc)
  assume l: "l \<le> n"
  then have "[0..<n + 1] ! l = l" by (rule split_nth_upt_Suc)
  moreover have "f ([0..<n + 1] ! l) = Inr (ys ! l)"
    using assms l by (simp add: mapM_Inr_iff del: upt_Suc)
  ultimately show "f l = Inr (ys ! l)" by simp
qed

lemma length_unique_species_standard:
  "radial_basis_calculator c = Standard rbc \<Longrightarrow> unique_species c = all_species c"
  by (simp add: unique_species_def)

lemma densities_rows:
  assumes ve: "vector_expansion c b = Inr ev"
    and rc: "radial_contract c b" and hc: "harmonics_contract c b"
    and d: "densities c b ev = Inr dens"
  shows "length dens = l_max c + 1"
    and "length (structure_centers b) = length (centers b)"
    and "length (direction_vectors b) = length (pairs b)"
    and "0 < length (centers b)"
    and "l \<le> l_max c \<Longrightarrow> wf3 (dens ! l)"
    and "l \<le> l_max c \<Longrightarrow> shape3 (dens ! l) =
           (length (centers b), 2 * l + 1, length (unique_species c) * n_radial c b l)"
    and "l \<le> l_max c \<Longrightarrow> pairs_offset b = Inr po \<Longrightarrow> ctr < length (centers b) \<Longrightarrow>
         m < 2 * l + 1 \<Longrightarrow> s < length (unique_species c) \<Longrightarrow> n < n_radial c b l \<Longrightarrow>
           rows3 (dens ! l) ! ctr ! m ! (s * n_radial c b l + n) =
             pair_sum (selects c b po ctr s)
               (\<lambda>p. rows3 (block_values (blocks ev ! l)) ! p ! m ! source_column c (n_radial c b l) s n)
               (length (pairs b))"
proof -
  let ?C = "length (centers b)" and ?P = "length (pairs b)"
  note E = vector_expansion_blocks [OF ve rc hc]
  from ve obtain cv where cv: "get_cartesian_vectors b = Inr cv"
    by (auto simp: vector_expansion_def bnd_eq_Inr)
  from get_cartesian_vectors_samples [OF cv] obtain po0 where
    po0: "pairs_offset b = Inr po0" "length po0 = ?P"
    and nm: "names (csamples cv) = sample_names"
    and en: "entries (csamples cv) = map (pair_label b po0) [0..<?P]"
    by blast
  have col: "column (csamples cv) ''species_neighbor'' = map (species_neighbor_label b po0) [0..<?P]"
    using nm en by (rule column_species_neighbor)
  have b0: "block_l ev 0 = Inr (blocks ev ! 0)" using E(4) [of 0] by simp
  have smp0: "samples (blocks ev ! 0) = csamples cv" using E(8) [of 0, OF _ cv] by simp
  from d b0 have lsc: "length (structure_centers b) = ?C"
    by (auto simp: densities_def bnd_eq_Inr Let_def stack_last_def split: if_splits)
  have sv: "shape3 (block_values (blocks ev ! l)) = (length (direction_vectors b), 2 * l + 1, n_columns c b l)"
    and wv: "wf3 (block_values (blocks ev ! l))" and bl: "block_l ev l = Inr (blocks ev ! l)"
    if "l \<le> l_max c" for l
    using E(6) [OF that] E(5) [OF that] E(4) [OF that] by simp_all
  have main: "length dens = l_max c + 1 \<and> length (direction_vectors b) = ?P \<and> 0 < ?C \<and>
    (\<forall>l \<le> l_max c. wf3 (dens ! l) \<and>
       shape3 (dens ! l) = (?C, 2 * l + 1, length (unique_species c) * n_radial c b l) \<and>
       (\<forall>ctr < ?C. \<forall>m < 2 * l + 1. \<forall>s < length (unique_species c). \<forall>n < n_radial c b l.
           rows3 (dens ! l) ! ctr ! m ! (s * n_radial c b l + n) =
             pair_sum (selects c b po0 ctr s)
               (\<lambda>p. rows3 (block_values (blocks ev ! l)) ! p ! m ! source_column c (n_radial c b l) s n)
               ?P))"
  proof (cases "radial_basis_calculator c")
    case (Standard rbc)
    let ?S = "length (all_species c)"
    have na: "\<not> is_alchemical c" using Standard by simp
    have us: "unique_species c = all_species c"
      using Standard by (rule length_unique_species_standard)
    have nc: "n_columns c b l = n_radial c b l" for l
      using Standard by (simp add: n_columns_def)
    from d b0 lsc na smp0 obtain idx where
      idx: "density_indices_standard c b (csamples cv) = Inr idx"
      and mm: "mapM (densities_l_standard ?C ?S idx ev) [0..<l_max c + 1] = Inr dens"
      by (auto simp: densities_def bnd_eq_Inr Let_def stack_last_def split: if_splits)
    note di = density_indices_standard_Inr [OF idx po0 col]
    note ml = mapM_upt_nth [OF mm]
    have per: "\<exists>acc. index_add (zeros3 (?C * ?S) (2 * l + 1) (n_radial c b l)) idx
                  (block_values (blocks ev ! l)) = Inr acc \<and>
        shape3 (dens ! l) = (?C, 2 * l + 1, ?S * n_radial c b l) \<and> wf3 (dens ! l) \<and> 0 < ?C \<and> 0 < ?S \<and>
        (\<forall>ctr < ?C. \<forall>m < 2 * l + 1. \<forall>s < ?S. \<forall>n < n_radial c b l.
           rows3 (dens ! l) ! ctr ! m ! (s * n_radial c b l + n) = rows3 acc ! (ctr * ?S + s) ! m ! n)"
      if l: "l \<le> l_max c" for l
      using densities_l_standard_Inr [OF ml(2) [OF l] bl [OF l] wv [OF l]] sv [OF l]
      by (simp add: nc)
    from per [of 0] obtain acc0 where
      acc0: "index_add (zeros3 (?C * ?S) (2 * 0 + 1) (n_radial c b 0)) idx
                  (block_values (blocks ev ! 0)) = Inr acc0" and pos: "0 < ?C"
      by auto
    have ldv: "length (direction_vectors b) = ?P"
      using index_add_Inr(3) [OF acc0 wf3_zeros3 wv [of 0]] sv [of 0] di(1) by simp
    have rows: "rows3 (dens ! l) ! ctr ! m ! (s * n_radial c b l + n) =
             pair_sum (selects c b po0 ctr s)
               (\<lambda>p. rows3 (block_values (blocks ev ! l)) ! p ! m ! source_column c (n_radial c b l) s n) ?P"
      if l: "l \<le> l_max c" and ctr: "ctr < ?C" and m: "m < 2 * l + 1" and s: "s < ?S"
        and n: "n < n_radial c b l" for l ctr m s n
    proof -
      from per [OF l] obtain acc where
        acc: "index_add (zeros3 (?C * ?S) (2 * l + 1) (n_radial c b l)) idx
                  (block_values (blocks ev ! l)) = Inr acc"
        and el: "rows3 (dens ! l) ! ctr ! m ! (s * n_radial c b l + n) = rows3 acc ! (ctr * ?S + s) ! m ! n"
        using ctr m s n by blast
      have k: "ctr * ?S + s < ?C * ?S" using ctr s by (rule index_in_grid)
      have "rows3 acc ! (ctr * ?S + s) ! m ! n =
          rows3 (zeros3 (?C * ?S) (2 * l + 1) (n_radial c b l)) ! (ctr * ?S + s) ! m ! n +
          pair_sum (\<lambda>p. idx ! p = int (ctr * ?S + s))
            (\<lambda>p. rows3 (block_values (blocks ev ! l)) ! p ! m ! n)
            (fst (shape3 (block_values (blocks ev ! l))))"
        using index_add_Inr(5) [OF acc wf3_zeros3 wv [OF l], of "ctr * ?S + s" m n] k m n by simp
      also have "rows3 (zeros3 (?C * ?S) (2 * l + 1) (n_radial c b l)) ! (ctr * ?S + s) ! m ! n = 0"
        using k m n by (intro zeros3_nth) simp_all
      also have "fst (shape3 (block_values (blocks ev ! l))) = ?P"
        using sv [OF l] ldv by simp
      also have "pair_sum (\<lambda>p. idx ! p = int (ctr * ?S + s))
            (\<lambda>p. rows3 (block_values (blocks ev ! l)) ! p ! m ! n) ?P =
          pair_sum (selects c b po0 ctr s)
            (\<lambda>p. rows3 (block_values (blocks ev ! l)) ! p ! m ! source_column c (n_radial c b l) s n) ?P"
      proof (rule pair_sum_cong)
        fix p assume p: "p < ?P"
        from di(2) [OF p] obtain a where a: "a < ?S"
          "species_to_index c (species_neighbor_label b po0 p) = Inr (int a)"
          "idx ! p = shifted_center b po0 p * int ?S + int a"
          by blast
        have "idx ! p = int (ctr * ?S + s) \<longleftrightarrow> shifted_center b po0 p = int ctr \<and> int a = int s"
          unfolding a(3) using a(1) s by (intro grid_index_eq) simp_all
        then show "(idx ! p = int (ctr * ?S + s)) = selects c b po0 ctr s p"
          using a(2) na by (auto simp: selects_def)
      next
        fix p show "rows3 (block_values (blocks ev ! l)) ! p ! m ! n =
          rows3 (block_values (blocks ev ! l)) ! p ! m ! source_column c (n_radial c b l) s n"
          using na by (simp add: source_column_def)
      qed
      finally show ?thesis using el by simp
    qed
    have "\<forall>l \<le> l_max c. wf3 (dens ! l) \<and>
       shape3 (dens ! l) = (?C, 2 * l + 1, length (unique_species c) * n_radial c b l) \<and>
       (\<forall>ctr < ?C. \<forall>m < 2 * l + 1. \<forall>s < length (unique_species c). \<forall>n < n_radial c b l.
           rows3 (dens ! l) ! ctr ! m ! (s * n_radial c b l + n) =
             pair_sum (selects c b po0 ctr s)
               (\<lambda>p. rows3 (block_values (blocks ev ! l)) ! p ! m ! source_column c (n_radial c b l) s n)
               ?P)"
      using per rows unfolding us by blast
    with ml(1) ldv pos show ?thesis by blast
  next
    case (Alchemical k rbc)
    have al: "is_alchemical c" using Alchemical by simp
    have us: "length (unique_species c) = k"
      using Alchemical by (rule length_unique_species_alchemical)
    have nc: "n_columns c b l = k * n_radial c b l" for l
      using Alchemical by (simp add: n_columns_def)
    from d b0 lsc al obtain s_i where
      s_i: "s_i_metadata_to_unique b = Inr s_i"
      and mm: "mapM (densities_l_alchemical ?C s_i ev) [0..<l_max c + 1] = Inr dens"
      by (auto simp: densities_def bnd_eq_Inr Let_def stack_last_def split: if_splits)
    have s_eq: "s_i = map (shifted_center b po0) [0..<?P]"
      using s_i po0 by (rule s_i_metadata_to_unique_Inr)
    note ml = mapM_upt_nth [OF mm]
    have per: "index_add (zeros3 ?C (2 * l + 1) (k * n_radial c b l)) s_i
                  (block_values (blocks ev ! l)) = Inr (dens ! l) \<and>
        shape3 (dens ! l) = (?C, 2 * l + 1, k * n_radial c b l) \<and> wf3 (dens ! l) \<and> 0 < ?C"
      if l: "l \<le> l_max c" for l
      using densities_l_alchemical_Inr [OF ml(2) [OF l] bl [OF l] wv [OF l]] sv [OF l]
      by (simp add: nc)
    have pos: "0 < ?C" using per [of 0] by simp
    have ldv: "length (direction_vectors b) = ?P"
      using index_add_Inr(3) [OF per [of 0, THEN conjunct1] wf3_zeros3 wv [of 0]] sv [of 0] s_eq
      by simp
    have rows: "rows3 (dens ! l) ! ctr ! m ! (s * n_radial c b l + n) =
             pair_sum (selects c b po0 ctr s)
               (\<lambda>p. rows3 (block_values (blocks ev ! l)) ! p ! m ! source_column c (n_radial c b l) s n) ?P"
      if l: "l \<le> l_max c" and ctr: "ctr < ?C" and m: "m < 2 * l + 1" and s: "s < k"
        and n: "n < n_radial c b l" for l ctr m s n
    proof -
      have acc: "index_add (zeros3 ?C (2 * l + 1) (k * n_radial c b l)) s_i
                  (block_values (blocks ev ! l)) = Inr (dens ! l)"
        using per [OF l] by simp
      have col: "s * n_radial c b l + n < k * n_radial c b l" using s n by (rule index_in_grid)
      have "rows3 (dens ! l) ! ctr ! m ! (s * n_radial c b l + n) =
          rows3 (zeros3 ?C (2 * l + 1) (k * n_radial c b l)) ! ctr ! m ! (s * n_radial c b l + n) +
          pair_sum (\<lambda>p. s_i ! p = int ctr)
            (\<lambda>p. rows3 (block_values (blocks ev ! l)) ! p ! m ! (s * n_radial c b l + n))
            (fst (shape3 (block_values (blocks ev ! l))))"
        using index_add_Inr(5) [OF acc wf3_zeros3 wv [OF l], of ctr m "s * n_radial c b l + n"] ctr m col
        by simp
      also have "rows3 (zeros3 ?C (2 * l + 1) (k * n_radial c b l)) ! ctr ! m ! (s * n_radial c b l + n) = 0"
        using ctr m col by (intro zeros3_nth) simp_all
      also have "fst (shape3 (block_values (blocks ev ! l))) = ?P"
        using sv [OF l] ldv by simp
      also have "pair_sum (\<lambda>p. s_i ! p = int ctr)
            (\<lambda>p. rows3 (block_values (blocks ev ! l)) ! p ! m ! (s * n_radial c b l + n)) ?P =
          pair_sum (selects c b po0 ctr s)
            (\<lambda>p. rows3 (block_values (blocks ev ! l)) ! p ! m ! source_column c (n_radial c b l) s n) ?P"
      proof (rule pair_sum_cong)
        fix p assume p: "p < ?P"
        then show "(s_i ! p = int ctr) = selects c b po0 ctr s p"
          using al by (simp add: selects_def s_eq)
      next
        fix p show "rows3 (block_values (blocks ev ! l)) ! p ! m ! (s * n_radial c b l + n) =
          rows3 (block_values (blocks ev ! l)) ! p ! m ! source_column c (n_radial c b l) s n"
          using al by (simp add: source_column_def)
      qed
      finally show ?thesis by simp
    qed
    have "\<forall>l \<le> l_max c. wf3 (dens ! l) \<and>
       shape3 (dens ! l) = (?C, 2 * l + 1, length (unique_species c) * n_radial c b l) \<and>
       (\<forall>ctr < ?C. \<forall>m < 2 * l + 1. \<forall>s < length (unique_species c). \<forall>n < n_radial c b l.
           rows3 (dens ! l) ! ctr ! m ! (s * n_radial c b l + n) =
             pair_sum (selects c b po0 ctr s)
               (\<lambda>p. rows3 (block_values (blocks ev ! l)) ! p ! m ! source_column c (n_radial c b l) s n)
               ?P)"
      using per rows unfolding us by blast
    with ml(1) ldv pos show ?thesis by blast
  qed
  from main show "length dens = l_max c + 1" "length (direction_vectors b) = ?P" "0 < ?C"
    by simp_all
  show "length (structure_centers b) = ?C" by (rule lsc)
  assume l: "l \<le> l_max c"
  from main l show "wf3 (dens ! l)"
    and "shape3 (dens ! l) = (?C, 2 * l + 1, length (unique_species c) * n_radial c b l)"
    by simp_all
  assume "pairs_offset b = Inr po"
  then have "po = po0" using po0 by simp
  then show "ctr < ?C \<Longrightarrow> m < 2 * l + 1 \<Longrightarrow> s < length (unique_species c) \<Longrightarrow> n < n_radial c b l \<Longrightarrow>
           rows3 (dens ! l) ! ctr ! m ! (s * n_radial c b l + n) =
             pair_sum (selects c b po ctr s)
               (\<lambda>p. rows3 (block_values (blocks ev ! l)) ! p ! m ! source_column c (n_radial c b l) s n)
               ?P"
    using main l by simp
qed

subsection \<open>The blocks of the output\<close>

lemma length_unique_species: "length (unique_species c) = n_channels c"
  by (cases "radial_basis_calculator c") (simp_all add: unique_species_def n_channels_def arange_def)

lemma stack_last_Inr:
  assumes "stack_last (col # cols) err = Inr rows"
  shows "length rows = length col"
    and "\<And>d. d \<in> set cols \<Longrightarrow> length d = length col"
    and "\<And>i. i < length col \<Longrightarrow> rows ! i = map (\<lambda>d. d ! i) (col # cols)"
  using assms by (auto simp: stack_last_def split: if_splits)

lemma np_where_less: "i \<in> set (np_where xs a) \<Longrightarrow> i < length xs \<and> xs ! i = a"
  by (simp add: np_where_def)

lemma np_where_iff: "i \<in> set (np_where xs a) \<longleftrightarrow> i < length xs \<and> xs ! i = a"
  by (auto simp: np_where_def)

lemma distinct_np_where: "distinct (np_where xs a)"
  by (simp add: np_where_def)

lemma length_np_where: "length (np_where xs a) = count_list xs a"
proof -
  have "length (filter (\<lambda>i. xs ! i = a) [0..<length xs]) = length (filter (\<lambda>x. x = a) (map (\<lambda>i. xs ! i) [0..<length xs]))"
    by (simp add: filter_map comp_def)
  also have "map (\<lambda>i. xs ! i) [0..<length xs] = xs" by (rule map_nth)
  also have "length (filter (\<lambda>x. x = a) xs) = count_list xs a"
    by (induction xs) auto
  finally show ?thesis by (simp add: np_where_def)
qed

lemma block_ai_l_Inr:
  assumes blk: "block_ai_l c b d vb l a_i = Inr blk"
  shows "block_values blk =
           \<lparr>shape3 = (length (np_where (species b) a_i), snd (shape3 d)),
            rows3 = map (\<lambda>i. rows3 d ! i) (np_where (species b) a_i)\<rparr>"
    and "\<And>i. i \<in> set (np_where (species b) a_i) \<Longrightarrow> i < fst (shape3 d)"
    and "length (structure_centers b) = length (centers b)"
    and "names (samples blk) = [''structure'', ''center'']"
    and "entries (samples blk) = map (atom_label b) (np_where (species b) a_i)"
    and "components blk = components vb"
    and "names (properties blk) = [''a1'', ''n1'', ''l1'']"
    and "stack_last
           [np_repeat (unique_species c) (length (remdups (column (properties vb) ''n''))),
            np_tile (arange (length (remdups (column (properties vb) ''n'')))) (length (unique_species c)),
            replicate (snd (snd (shape3 d))) (int l)] ValueError = Inr (entries (properties blk))"
proof -
  let ?w = "np_where (species b) a_i"
  let ?nn = "length (remdups (column (properties vb) ''n''))"
  from blk obtain dv u smp props where
    dv: "index_select d ?w = Inr dv"
    and u: "stack_last [structure_centers b, centers b] RuntimeError = Inr u"
    and smp: "index_tensor u (map int ?w) = Inr smp"
    and props: "stack_last
           [np_repeat (unique_species c) (length (arange ?nn)),
            np_tile (arange ?nn) (length (unique_species c)),
            replicate (snd (snd (shape3 dv))) (int l)] ValueError = Inr props"
    and b: "blk = \<lparr>block_values = dv,
           samples = \<lparr>names = [''structure'', ''center''], entries = smp\<rparr>,
           components = components vb,
           properties = \<lparr>names = [''a1'', ''n1'', ''l1''], entries = props\<rparr>\<rparr>"
    by (auto simp: block_ai_l_def bnd_eq_Inr Let_def)
  from dv have rng: "\<And>i. i \<in> set ?w \<Longrightarrow> i < fst (shape3 d)"
    and dveq: "dv = \<lparr>shape3 = (length ?w, snd (shape3 d)), rows3 = map (\<lambda>i. rows3 d ! i) ?w\<rparr>"
    by (auto simp: index_select_def split: if_splits)
  show "block_values blk =
           \<lparr>shape3 = (length ?w, snd (shape3 d)), rows3 = map (\<lambda>i. rows3 d ! i) ?w\<rparr>"
    using b dveq by simp
  show "\<And>i. i \<in> set ?w \<Longrightarrow> i < fst (shape3 d)" by (rule rng)
  note su = stack_last_Inr [OF u]
  show lsc: "length (structure_centers b) = length (centers b)" using su(2) by simp
  have un: "u ! i = atom_label b i" if "i < length (structure_centers b)" for i
    using su(3) [OF that] by (simp add: atom_label_def)
  have lu: "length u = length (structure_centers b)" using su(1) .
  note st = index_tensor_Inr [OF smp]
  have "smp = map (atom_label b) ?w"
  proof (rule nth_equalityI)
    show "length smp = length (map (atom_label b) ?w)" using st(1) by simp
    fix j assume "j < length smp"
    then have j: "j < length ?w" using st(1) by simp
    then have r: "int (?w ! j) < int (length u)" using st(3) [of j] by simp
    then have "?w ! j < length (structure_centers b)" using lu by simp
    moreover have "smp ! j = u ! (?w ! j)"
      using st(2) [of j] j r by simp
    ultimately show "smp ! j = map (atom_label b) ?w ! j" using un j by simp
  qed
  then show "entries (samples blk) = map (atom_label b) ?w" using b by simp
  show "names (samples blk) = [''structure'', ''center'']" "components blk = components vb"
    "names (properties blk) = [''a1'', ''n1'', ''l1'']"
    using b by simp_all
  show "stack_last
           [np_repeat (unique_species c) ?nn,
            np_tile (arange ?nn) (length (unique_species c)),
            replicate (snd (snd (shape3 d))) (int l)] ValueError = Inr (entries (properties blk))"
    using props b dveq by (simp add: arange_def)
qed

lemma density_aggregator_Inr:
  assumes "density_aggregator c b ev = Inr tm"
  shows "\<exists>dens. densities c b ev = Inr dens \<and>
     names (keys tm) = [''a_i'', ''lam'', ''sigma''] \<and>
     entries (keys tm) = key_labels c \<and>
     length (blocks tm) = (l_max c + 1) * length (all_species c) \<and>
     (\<forall>l \<le> l_max c. \<forall>a < length (all_species c).
        \<exists>vb. block_l ev l = Inr vb \<and>
          block_ai_l c b (dens ! l) vb l (all_species c ! a)
            = Inr (blocks tm ! (l * length (all_species c) + a)))"
proof -
  let ?S = "length (all_species c)"
  from assms obtain dens bs where
    dens: "densities c b ev = Inr dens"
    and bs: "mapM (blocks_l c b dens ev) [0..<l_max c + 1] = Inr bs"
    and tm: "tm = \<lparr>keys = \<lparr>names = [''a_i'', ''lam'', ''sigma''], entries = key_labels c\<rparr>,
          blocks = concat bs\<rparr>"
    by (auto simp: density_aggregator_def bnd_eq_Inr)
  note mb = mapM_upt_nth [OF bs]
  have per: "\<exists>vb. block_l ev l = Inr vb \<and> length (bs ! l) = ?S \<and>
      (\<forall>a < ?S. block_ai_l c b (dens ! l) vb l (all_species c ! a) = Inr (bs ! l ! a))"
    if l: "l \<le> l_max c" for l
    using mb(2) [OF l] by (auto simp: blocks_l_def bnd_eq_Inr mapM_Inr_iff)
  have uni: "\<And>x. x \<in> set bs \<Longrightarrow> length x = ?S"
  proof -
    fix x assume "x \<in> set bs"
    then obtain l where "l < length bs" "x = bs ! l" by (metis in_set_conv_nth)
    then show "length x = ?S" using per [of l] mb(1) by auto
  qed
  have len: "length (concat bs) = (l_max c + 1) * ?S"
    using length_concat_uniform [of bs ?S] uni mb(1) by simp
  have nth: "concat bs ! (l * ?S + a) = bs ! l ! a" if "l \<le> l_max c" "a < ?S" for l a
    using nth_concat_uniform [of bs ?S l a] uni that mb(1) by simp
  have "\<forall>l \<le> l_max c. \<forall>a < ?S.
        \<exists>vb. block_l ev l = Inr vb \<and>
          block_ai_l c b (dens ! l) vb l (all_species c ! a) = Inr (blocks tm ! (l * ?S + a))"
  proof (intro allI impI)
    fix l a assume l: "l \<le> l_max c" and a: "a < ?S"
    from per [OF l] obtain vb where "block_l ev l = Inr vb"
      "block_ai_l c b (dens ! l) vb l (all_species c ! a) = Inr (bs ! l ! a)"
      using a by blast
    then show "\<exists>vb. block_l ev l = Inr vb \<and>
          block_ai_l c b (dens ! l) vb l (all_species c ! a) = Inr (blocks tm ! (l * ?S + a))"
      using nth [OF l a] by (simp add: tm)
  qed
  with dens len show ?thesis by (simp add: tm)
qed

subsection \<open>The output of \<open>forward\<close>\<close>

lemma forward_Inr:
  "forward c b = Inr tm \<Longrightarrow>
     \<exists>ev. vector_expansion c b = Inr ev \<and> density_aggregator c b ev = Inr tm"
  by (simp add: forward_def bnd_eq_Inr)

lemma length_np_repeat [simp]: "length (np_repeat xs k) = length xs * k"
  by (induction xs) (simp_all add: np_repeat_def)

lemma length_np_tile [simp]: "length (np_tile xs k) = k * length xs"
  by (induction k) (simp_all add: np_tile_def)

lemma forward_block:
  assumes fw: "forward c b = Inr tm"
    and rc: "radial_contract c b" and hc: "harmonics_contract c b"
    and l: "l \<le> l_max c" and a: "a < length (all_species c)"
  shows "\<exists>ev dens. vector_expansion c b = Inr ev \<and> densities c b ev = Inr dens \<and>
     block_ai_l c b (dens ! l) (blocks ev ! l) l (all_species c ! a)
       = Inr (blocks tm ! (l * length (all_species c) + a))"
proof -
  from forward_Inr [OF fw] obtain ev where ev: "vector_expansion c b = Inr ev"
    and ag: "density_aggregator c b ev = Inr tm" by blast
  from density_aggregator_Inr [OF ag] l a obtain dens vb where
    "densities c b ev = Inr dens" "block_l ev l = Inr vb"
    "block_ai_l c b (dens ! l) vb l (all_species c ! a)
       = Inr (blocks tm ! (l * length (all_species c) + a))"
    by blast
  moreover have "block_l ev l = Inr (blocks ev ! l)"
    using vector_expansion_blocks(4) [OF ev rc hc l] .
  ultimately show ?thesis using ev by auto
qed

text \<open>
  C4. When \<open>forward\<close> returns and the providers have kept their contracts, the block of
  the key \<open>(a_i, l, 1)\<close>, at position \<open>l * n_species + a\<close> for \<open>a_i = all_species ! a\<close>,
  has as many rows (and sample labels) as the batch has atoms of species \<open>a_i\<close>,
  \<open>2 l + 1\<close> components and \<open>n_channels * n_radial l\<close> columns (and property labels),
  where \<open>n_channels\<close> is the number of species in the standard mode and the number of
  pseudo species in the alchemical mode; the values have that shape.
\<close>

theorem block_shapes:
  assumes "forward c b = Inr tm"
    and "radial_contract c b" and "harmonics_contract c b"
    and "l \<le> l_max c" and "a < length (all_species c)"
  shows "entries (keys tm) ! (l * length (all_species c) + a) = [all_species c ! a, int l, 1] \<and>
     shape3 (block_values (blocks tm ! (l * length (all_species c) + a))) =
       (count_list (species b) (all_species c ! a), 2 * l + 1, n_channels c * n_radial c b l) \<and>
     wf3 (block_values (blocks tm ! (l * length (all_species c) + a))) \<and>
     length (entries (samples (blocks tm ! (l * length (all_species c) + a)))) =
       count_list (species b) (all_species c ! a) \<and>
     map (\<lambda>lb. length (entries lb)) (components (blocks tm ! (l * length (all_species c) + a))) =
       [2 * l + 1] \<and>
     length (entries (properties (blocks tm ! (l * length (all_species c) + a)))) =
       n_channels c * n_radial c b l"
proof -
  let ?S = "length (all_species c)"
  let ?blk = "blocks tm ! (l * ?S + a)"
  let ?w = "np_where (species b) (all_species c ! a)"
  from forward_block [OF assms] obtain ev dens where
    ev: "vector_expansion c b = Inr ev" and dens: "densities c b ev = Inr dens"
    and blk: "block_ai_l c b (dens ! l) (blocks ev ! l) l (all_species c ! a) = Inr ?blk"
    by blast
  note B = block_ai_l_Inr [OF blk]
  note D = densities_rows [OF ev assms(2,3) dens]
  note E = vector_expansion_blocks [OF ev assms(2,3)]
  from forward_Inr [OF assms(1)] ev have ag: "density_aggregator c b ev = Inr tm" by simp
  from density_aggregator_Inr [OF ag] have ks: "entries (keys tm) = key_labels c" by blast
  have sd: "shape3 (dens ! l) = (length (centers b), 2 * l + 1, n_channels c * n_radial c b l)"
    using D(6) [OF assms(4)] by (simp add: length_unique_species)
  have wd: "wf3 (dens ! l)" using D(5) [OF assms(4)] .
  have key: "entries (keys tm) ! (l * ?S + a) = [all_species c ! a, int l, 1]"
  proof -
    let ?ks = "map (\<lambda>l. map (\<lambda>a_i. [a_i, int l, 1]) (all_species c)) [0..<l_max c + 1]"
    have "concat ?ks ! (l * ?S + a) = ?ks ! l ! a"
      using assms(4,5) by (intro nth_concat_uniform) auto
    also have "?ks ! l = map (\<lambda>a_i. [a_i, int l, 1]) (all_species c)"
      using assms(4) by (simp add: split_nth_upt_Suc del: upt_Suc)
    finally show ?thesis using assms(5) by (simp add: ks key_labels_def)
  qed
  have sh: "shape3 (block_values ?blk) =
       (count_list (species b) (all_species c ! a), 2 * l + 1, n_channels c * n_radial c b l)"
    using B(1) sd by (simp add: length_np_where)
  have wf: "wf3 (block_values ?blk)"
  proof -
    have "wf_rows (2 * l + 1) (n_channels c * n_radial c b l) (map (\<lambda>i. rows3 (dens ! l) ! i) ?w)"
      unfolding wf_rows_def
    proof
      fix x assume "x \<in> set (map (\<lambda>i. rows3 (dens ! l) ! i) ?w)"
      then obtain i where i: "i \<in> set ?w" "x = rows3 (dens ! l) ! i" by auto
      then have "i < length (rows3 (dens ! l))" using B(2) [of i] wd sd by (simp add: wf3_def)
      then have "x \<in> set (rows3 (dens ! l))" using i by simp
      then show "length x = 2 * l + 1 \<and> (\<forall>y \<in> set x. length y = n_channels c * n_radial c b l)"
        using wd sd by (simp add: wf3_def wf_rows_def)
    qed
    then show ?thesis using B(1) sd by (simp add: wf3_def)
  qed
  have sm: "length (entries (samples ?blk)) = count_list (species b) (all_species c ! a)"
    using B(5) by (simp add: length_np_where)
  have cm: "map (\<lambda>lb. length (entries lb)) (components ?blk) = [2 * l + 1]"
    using B(6) E(9) [OF assms(4)] by (simp add: m_components_def)
  have pr: "length (entries (properties ?blk)) = n_channels c * n_radial c b l"
  proof -
    note st = stack_last_Inr [OF B(8)]
    have "length (replicate (snd (snd (shape3 (dens ! l)))) (int l)) =
        length (np_repeat (unique_species c) (length (remdups (column (properties (blocks ev ! l)) ''n''))))"
      by (rule st(2)) simp
    then show ?thesis using st(1) sd by simp
  qed
  from key sh wf sm cm pr show ?thesis by blast
qed


theorem block_shapes_witness:
  "\<exists>tm. forward standard_calculator h2_alone = Inr tm \<and>
     entries (keys tm) ! 0 = [1, 0, 1] \<and>
     shape3 (block_values (blocks tm ! 0)) = (2, 1, 2) \<and>
     wf3 (block_values (blocks tm ! 0)) \<and>
     length (entries (properties (blocks tm ! 0))) = 2"
proof -
  have "case forward standard_calculator h2_alone of Inl _ \<Rightarrow> False | Inr _ \<Rightarrow> True"
    by code_simp
  then obtain tm where tm: "forward standard_calculator h2_alone = Inr tm"
    by (auto split: sum.splits)
  have rc: "radial_contract standard_calculator h2_alone" by code_simp
  have hc: "harmonics_contract standard_calculator h2_alone" by code_simp
  have l: "0 \<le> l_max standard_calculator" by simp
  have a: "0 < length (all_species standard_calculator)" by code_simp
  have v: "all_species standard_calculator ! 0 = 1"
    "count_list (species h2_alone) (all_species standard_calculator ! 0) = 2"
    "n_channels standard_calculator * n_radial standard_calculator h2_alone 0 = 2"
    by code_simp+
  from block_shapes [OF tm rc hc l a] v tm show ?thesis by simp
qed

lemma forward_samples:
  assumes fw: "forward c b = Inr tm" and l: "l \<le> l_max c" and a: "a < length (all_species c)"
  shows "entries (samples (blocks tm ! (l * length (all_species c) + a))) =
           map (atom_label b) (np_where (species b) (all_species c ! a))"
    and "length (structure_centers b) = length (centers b)"
proof -
  from forward_Inr [OF fw] obtain ev where ag: "density_aggregator c b ev = Inr tm" by blast
  from density_aggregator_Inr [OF ag] l a obtain dens vb where
    blk: "block_ai_l c b (dens ! l) vb l (all_species c ! a)
       = Inr (blocks tm ! (l * length (all_species c) + a))"
    by blast
  show "entries (samples (blocks tm ! (l * length (all_species c) + a))) =
           map (atom_label b) (np_where (species b) (all_species c ! a))"
    using block_ai_l_Inr(5) [OF blk] .
  show "length (structure_centers b) = length (centers b)"
    using block_ai_l_Inr(3) [OF blk] .
qed

lemma forward_values:
  assumes fw: "forward c b = Inr tm" and ev: "vector_expansion c b = Inr ev"
    and dens: "densities c b ev = Inr dens"
    and l: "l \<le> l_max c" and a: "a < length (all_species c)"
  shows "rows3 (block_values (blocks tm ! (l * length (all_species c) + a))) =
           map (\<lambda>i. rows3 (dens ! l) ! i) (np_where (species b) (all_species c ! a))"
proof -
  from forward_Inr [OF fw] ev have ag: "density_aggregator c b ev = Inr tm" by auto
  from density_aggregator_Inr [OF ag] obtain dens' where
    d: "densities c b ev = Inr dens'"
    and all: "\<forall>l \<le> l_max c. \<forall>a < length (all_species c).
        \<exists>vb. block_l ev l = Inr vb \<and>
          block_ai_l c b (dens' ! l) vb l (all_species c ! a)
            = Inr (blocks tm ! (l * length (all_species c) + a))"
    by blast
  from d dens have "dens' = dens" by simp
  with all l a obtain vb where
    blk: "block_ai_l c b (dens ! l) vb l (all_species c ! a)
       = Inr (blocks tm ! (l * length (all_species c) + a))"
    by blast
  show ?thesis using block_ai_l_Inr(1) [OF blk] by simp
qed

lemma forward_keys:
  assumes "forward c b = Inr tm"
  shows "entries (keys tm) = key_labels c"
    and "length (blocks tm) = (l_max c + 1) * length (all_species c)"
    and "names (keys tm) = [''a_i'', ''lam'', ''sigma'']"
proof -
  from forward_Inr [OF assms] obtain ev where ag: "density_aggregator c b ev = Inr tm" by blast
  from density_aggregator_Inr [OF ag]
  show "entries (keys tm) = key_labels c"
    and "length (blocks tm) = (l_max c + 1) * length (all_species c)"
    and "names (keys tm) = [''a_i'', ''lam'', ''sigma'']"
    by blast+
qed

lemma length_concat_map_const:
  "(\<And>x. length (f x) = k) \<Longrightarrow> length (concat (map f xs)) = length xs * k"
  by (induction xs) auto

lemma length_key_labels: "length (key_labels c) = (l_max c + 1) * length (all_species c)"
proof -
  have "length (concat (map (\<lambda>l. map (\<lambda>a_i. [a_i, int l, 1]) (all_species c)) [0..<l_max c + 1]))
      = length [0..<l_max c + 1] * length (all_species c)"
    by (rule length_concat_map_const) simp
  then show ?thesis by (simp add: key_labels_def del: upt_Suc)
qed

lemma set_key_labels:
  "set (key_labels c) = {[a_i, int l, 1] | a_i l. a_i \<in> set (all_species c) \<and> l \<le> l_max c}"
proof -
  have "set (key_labels c) =
      (\<Union>l \<in> {0..<l_max c + 1}. (\<lambda>a_i. [a_i, int l, 1]) ` set (all_species c))"
    by (simp add: key_labels_def del: upt_Suc)
  also have "\<dots> = {[a_i, int l, 1] | a_i l. a_i \<in> set (all_species c) \<and> l \<le> l_max c}"
  proof (intro set_eqI iffI)
    fix k assume "k \<in> (\<Union>l \<in> {0..<l_max c + 1}. (\<lambda>a_i. [a_i, int l, 1]) ` set (all_species c))"
    then obtain l a_i where "l < l_max c + 1" "a_i \<in> set (all_species c)" "k = [a_i, int l, 1]"
      by auto
    then show "k \<in> {[a_i, int l, 1] | a_i l. a_i \<in> set (all_species c) \<and> l \<le> l_max c}"
      by auto
  next
    fix k assume "k \<in> {[a_i, int l, 1] | a_i l. a_i \<in> set (all_species c) \<and> l \<le> l_max c}"
    then obtain l a_i where la: "l \<le> l_max c" "a_i \<in> set (all_species c)" "k = [a_i, int l, 1]"
      by auto
    then have "l \<in> {0..<l_max c + 1}" by simp
    moreover have "k \<in> (\<lambda>a_i. [a_i, int l, 1]) ` set (all_species c)" using la by simp
    ultimately show "k \<in> (\<Union>l \<in> {0..<l_max c + 1}. (\<lambda>a_i. [a_i, int l, 1]) ` set (all_species c))"
      by (rule UN_I)
  qed
  finally show ?thesis .
qed

lemma atom_in_block:
  assumes lab: "distinct (map (atom_label b) [0..<length (species b)])"
    and i: "i < length (species b)"
  shows "atom_label b i \<in> set (map (atom_label b) (np_where (species b) x)) \<longleftrightarrow> species b ! i = x"
proof
  assume "atom_label b i \<in> set (map (atom_label b) (np_where (species b) x))"
  then obtain i' where i': "i' \<in> set (np_where (species b) x)" "atom_label b i' = atom_label b i"
    by auto
  then have "i' < length (species b)" "species b ! i' = x" by (simp_all add: np_where_iff)
  moreover have "inj_on (atom_label b) (set [0..<length (species b)])"
    using lab by (simp add: distinct_map)
  ultimately have "i' = i" using i i'(2) by (auto dest: inj_onD)
  with \<open>species b ! i' = x\<close> show "species b ! i = x" by simp
next
  assume "species b ! i = x"
  then have "i \<in> set (np_where (species b) x)" using i by (simp add: np_where_iff)
  then show "atom_label b i \<in> set (map (atom_label b) (np_where (species b) x))" by simp
qed

text \<open>
  C3. When \<open>forward\<close> returns for a vocabulary without repetition and a batch whose
  species all lie in the vocabulary, with one species and one distinct label
  \<open>(structure, center)\<close> per atom: the keys are the triples \<open>(a_i, l, 1)\<close>, in the order of
  an outer loop over the degrees and an inner loop over the vocabulary, with one block per
  key; at every degree every atom has its label in exactly one row of exactly one block;
  every block has as many rows of values as sample labels; and the row of values at the
  position of the label of the atom at position \<open>i\<close> of the batch is row \<open>i\<close> of the
  densities of that degree, where \<open>dens\<close> are the densities that \<open>forward\<close> has accumulated
  from the Vector Expansion \<open>ev\<close>.
\<close>

theorem output_keys_complete:
  assumes "forward c b = Inr tm"
    and "distinct (all_species c)"
    and "set (species b) \<subseteq> set (all_species c)"
    and "length (species b) = length (centers b)"
    and "distinct (map (atom_label b) [0..<length (species b)])"
    and "vector_expansion c b = Inr ev"
    and "densities c b ev = Inr dens"
  shows "entries (keys tm) =
           concat (map (\<lambda>l. map (\<lambda>a_i. [a_i, int l, 1]) (all_species c)) [0..<l_max c + 1]) \<and>
     set (entries (keys tm)) =
           {[a_i, int l, 1] | a_i l. a_i \<in> set (all_species c) \<and> l \<le> l_max c} \<and>
     length (blocks tm) = length (entries (keys tm)) \<and>
     (\<forall>l \<le> l_max c. \<forall>i < length (centers b).
        \<exists>!(a, j). a < length (all_species c) \<and>
           j < length (entries (samples (blocks tm ! (l * length (all_species c) + a)))) \<and>
           entries (samples (blocks tm ! (l * length (all_species c) + a))) ! j = atom_label b i) \<and>
     (\<forall>l \<le> l_max c. \<forall>a < length (all_species c).
        length (rows3 (block_values (blocks tm ! (l * length (all_species c) + a)))) =
        length (entries (samples (blocks tm ! (l * length (all_species c) + a))))) \<and>
     (\<forall>l \<le> l_max c. \<forall>i < length (centers b). \<forall>a < length (all_species c).
      \<forall>j < length (entries (samples (blocks tm ! (l * length (all_species c) + a)))).
        entries (samples (blocks tm ! (l * length (all_species c) + a))) ! j = atom_label b i \<longrightarrow>
        rows3 (block_values (blocks tm ! (l * length (all_species c) + a))) ! j =
          rows3 (dens ! l) ! i)"
proof -
  let ?S = "length (all_species c)"
  note K = forward_keys [OF assms(1)]
  have smp: "entries (samples (blocks tm ! (l * ?S + a))) =
         map (atom_label b) (np_where (species b) (all_species c ! a))"
    if "l \<le> l_max c" "a < ?S" for l a
    using forward_samples(1) [OF assms(1) that] .
  have val: "rows3 (block_values (blocks tm ! (l * ?S + a))) =
         map (\<lambda>i. rows3 (dens ! l) ! i) (np_where (species b) (all_species c ! a))"
    if "l \<le> l_max c" "a < ?S" for l a
    using forward_values [OF assms(1,6,7) that] .
  have 5: "length (rows3 (block_values (blocks tm ! (l * ?S + a)))) =
        length (entries (samples (blocks tm ! (l * ?S + a))))"
    if "l \<le> l_max c" "a < ?S" for l a
    using smp [OF that] val [OF that] by simp
  have 6: "rows3 (block_values (blocks tm ! (l * ?S + a))) ! j = rows3 (dens ! l) ! i"
    if l: "l \<le> l_max c" and i: "i < length (centers b)" and a: "a < ?S"
      and j: "j < length (entries (samples (blocks tm ! (l * ?S + a))))"
      and e: "entries (samples (blocks tm ! (l * ?S + a))) ! j = atom_label b i" for l i a j
  proof -
    let ?w = "np_where (species b) (all_species c ! a)"
    have i': "i < length (species b)" using i assms(4) by simp
    have j': "j < length ?w" using j smp [OF l a] by simp
    have e': "atom_label b (?w ! j) = atom_label b i" using e j' smp [OF l a] by simp
    have "?w ! j \<in> set ?w" using j' by simp
    then have "?w ! j < length (species b)" by (simp add: np_where_iff)
    moreover have "inj_on (atom_label b) (set [0..<length (species b)])"
      using assms(5) by (simp add: distinct_map)
    ultimately have "?w ! j = i" using e' i' by (auto dest: inj_onD)
    then show ?thesis using val [OF l a] j' by simp
  qed
  have 1: "entries (keys tm) =
           concat (map (\<lambda>l. map (\<lambda>a_i. [a_i, int l, 1]) (all_species c)) [0..<l_max c + 1])"
    using K(1) by (simp only: key_labels_def)
  have 2: "set (entries (keys tm)) =
           {[a_i, int l, 1] | a_i l. a_i \<in> set (all_species c) \<and> l \<le> l_max c}"
    using K(1) set_key_labels by simp
  have 3: "length (blocks tm) = length (entries (keys tm))"
    using K(1,2) length_key_labels by simp
  have 4: "\<exists>!(a, j). a < ?S \<and>
           j < length (entries (samples (blocks tm ! (l * ?S + a)))) \<and>
           entries (samples (blocks tm ! (l * ?S + a))) ! j = atom_label b i"
    if l: "l \<le> l_max c" and i: "i < length (centers b)" for l i
  proof -
    have i': "i < length (species b)" using i assms(4) by simp
    have smp: "entries (samples (blocks tm ! (l * ?S + a))) =
           map (atom_label b) (np_where (species b) (all_species c ! a))" if "a < ?S" for a
      using forward_samples(1) [OF assms(1) l that] .
    have "species b ! i \<in> set (all_species c)" using assms(3) i' by auto
    then obtain a where a: "a < ?S" "all_species c ! a = species b ! i"
      by (metis in_set_conv_nth)
    have "i \<in> set (np_where (species b) (all_species c ! a))"
      using a i' by (simp add: np_where_iff)
    then obtain j where j: "j < length (np_where (species b) (all_species c ! a))"
      "np_where (species b) (all_species c ! a) ! j = i"
      by (metis in_set_conv_nth)
    show ?thesis
    proof (rule ex1I [of _ "(a, j)"])
      show "case (a, j) of (a, j) \<Rightarrow> a < ?S \<and>
           j < length (entries (samples (blocks tm ! (l * ?S + a)))) \<and>
           entries (samples (blocks tm ! (l * ?S + a))) ! j = atom_label b i"
        using a j by (simp add: smp)
    next
      fix x assume x: "case x of (a, j) \<Rightarrow> a < ?S \<and>
           j < length (entries (samples (blocks tm ! (l * ?S + a)))) \<and>
           entries (samples (blocks tm ! (l * ?S + a))) ! j = atom_label b i"
      obtain a' j' where xe: "x = (a', j')" by (cases x)
      let ?w = "np_where (species b) (all_species c ! a')"
      from x xe have a': "a' < ?S" by simp
      from x xe have "j' < length (entries (samples (blocks tm ! (l * ?S + a'))))"
        and "entries (samples (blocks tm ! (l * ?S + a'))) ! j' = atom_label b i"
        by simp_all
      then have j': "j' < length ?w" and e: "atom_label b (?w ! j') = atom_label b i"
        using smp [OF a'] by simp_all
      have "atom_label b i \<in> set (map (atom_label b) ?w)"
        using j' e by (metis length_map nth_map nth_mem)
      then have sp: "species b ! i = all_species c ! a'"
        using atom_in_block [OF assms(5) i'] by simp
      then have aa: "a' = a"
        using a a' assms(2) by (simp add: nth_eq_iff_index_eq)
      have "?w ! j' \<in> set ?w" using j' by simp
      then have "?w ! j' < length (species b)" by (simp add: np_where_iff)
      moreover have "inj_on (atom_label b) (set [0..<length (species b)])"
        using assms(5) by (simp add: distinct_map)
      ultimately have "?w ! j' = i" using e i' by (auto dest: inj_onD)
      then have "j' = j"
        using j j' aa distinct_np_where [of "species b" "all_species c ! a"]
        by (metis nth_eq_iff_index_eq)
      with aa xe show "x = (a, j)" by simp
    qed
  qed
  have all4: "\<forall>l \<le> l_max c. \<forall>i < length (centers b).
        \<exists>!(a, j). a < ?S \<and>
           j < length (entries (samples (blocks tm ! (l * ?S + a)))) \<and>
           entries (samples (blocks tm ! (l * ?S + a))) ! j = atom_label b i"
  proof (intro allI impI)
    fix l i assume "l \<le> l_max c" and "i < length (centers b)"
    then show "\<exists>!(a, j). a < ?S \<and>
           j < length (entries (samples (blocks tm ! (l * ?S + a)))) \<and>
           entries (samples (blocks tm ! (l * ?S + a))) ! j = atom_label b i"
      by (rule 4)
  qed
  have all5: "\<forall>l \<le> l_max c. \<forall>a < ?S.
        length (rows3 (block_values (blocks tm ! (l * ?S + a)))) =
        length (entries (samples (blocks tm ! (l * ?S + a))))"
    using 5 by simp
  have all6: "\<forall>l \<le> l_max c. \<forall>i < length (centers b). \<forall>a < ?S.
      \<forall>j < length (entries (samples (blocks tm ! (l * ?S + a)))).
        entries (samples (blocks tm ! (l * ?S + a))) ! j = atom_label b i \<longrightarrow>
        rows3 (block_values (blocks tm ! (l * ?S + a))) ! j = rows3 (dens ! l) ! i"
  proof (intro allI impI)
    fix l i a j
    assume "l \<le> l_max c" "i < length (centers b)" "a < ?S"
      "j < length (entries (samples (blocks tm ! (l * ?S + a))))"
      "entries (samples (blocks tm ! (l * ?S + a))) ! j = atom_label b i"
    then show "rows3 (block_values (blocks tm ! (l * ?S + a))) ! j = rows3 (dens ! l) ! i"
      by (rule 6)
  qed
  show ?thesis
    by (rule conjI [OF 1 conjI [OF 2 conjI [OF 3 conjI [OF all4 conjI [OF all5 all6]]]]])
qed

theorem output_keys_complete_witness:
  "\<exists>tm ev dens. forward standard_calculator h2_alone = Inr tm \<and>
     vector_expansion standard_calculator h2_alone = Inr ev \<and>
     densities standard_calculator h2_alone ev = Inr dens \<and>
     entries (keys tm) = [[1, 0, 1], [8, 0, 1]] \<and>
     length (blocks tm) = 2 \<and>
     (\<exists>!(a, j). a < 2 \<and> j < length (entries (samples (blocks tm ! (0 * 2 + a)))) \<and>
         entries (samples (blocks tm ! (0 * 2 + a))) ! j = [0, 1]) \<and>
     length (rows3 (block_values (blocks tm ! 0))) = length (entries (samples (blocks tm ! 0))) \<and>
     rows3 (block_values (blocks tm ! 0)) ! 1 = rows3 (dens ! 0) ! 1"
proof -
  have "case forward standard_calculator h2_alone of Inl _ \<Rightarrow> False
        | Inr tm \<Rightarrow> entries (samples (blocks tm ! 0)) = [[0, 0], [0, 1]]"
    by code_simp
  then obtain tm where tm: "forward standard_calculator h2_alone = Inr tm"
    and s0: "entries (samples (blocks tm ! 0)) = [[0, 0], [0, 1]]"
    by (auto split: sum.splits)
  have "case vector_expansion standard_calculator h2_alone of Inl _ \<Rightarrow> False
        | Inr ev \<Rightarrow> (case densities standard_calculator h2_alone ev of
                      Inl _ \<Rightarrow> False | Inr _ \<Rightarrow> True)"
    by code_simp
  then obtain ev dens where ev: "vector_expansion standard_calculator h2_alone = Inr ev"
    and dens: "densities standard_calculator h2_alone ev = Inr dens"
    by (auto split: sum.splits)
  have h: "distinct (all_species standard_calculator)"
    "set (species h2_alone) \<subseteq> set (all_species standard_calculator)"
    "length (species h2_alone) = length (centers h2_alone)"
    "distinct (map (atom_label h2_alone) [0..<length (species h2_alone)])"
    by code_simp+
  have v: "concat (map (\<lambda>l. map (\<lambda>a_i. [a_i, int l, 1]) (all_species standard_calculator))
              [0..<l_max standard_calculator + 1]) = [[1, 0, 1], [8, 0, 1]]"
    "length (all_species standard_calculator) = 2"
    "l_max standard_calculator = 0" "length (centers h2_alone) = 2"
    by code_simp+
  have lab: "atom_label h2_alone 1 = [0, 1]" by code_simp
  have le: "(0::nat) \<le> 0" and lt: "(1::nat) < 2" and lt0: "(0::nat) < 2" by simp_all
  have z: "0 * 2 + 0 = (0::nat)" by simp
  note K = output_keys_complete [OF tm h ev dens]
  have k1: "entries (keys tm) = [[1, 0, 1], [8, 0, 1]]"
    using K [THEN conjunct1] by (simp only: v(1))
  have k2': "length (blocks tm) = length (entries (keys tm))"
    using K [THEN conjunct2, THEN conjunct2] by (rule conjunct1)
  have "length [[1, 0, 1], [8, 0, 1 :: int]] = 2" by simp
  then have k2: "length (blocks tm) = 2" using k2' by (simp only: k1)
  note k3 = K [THEN conjunct2, THEN conjunct2, THEN conjunct2, THEN conjunct1,
    unfolded v(2-4), rule_format, OF le lt, unfolded lab]
  note k4 = K [THEN conjunct2, THEN conjunct2, THEN conjunct2, THEN conjunct2, THEN conjunct1,
    unfolded v(2-4), rule_format, OF le lt0, unfolded z]
  have j: "1 < length (entries (samples (blocks tm ! 0)))" by (simp add: s0)
  have e: "entries (samples (blocks tm ! 0)) ! 1 = [0, 1]" by (simp add: s0)
  note k5 = K [THEN conjunct2, THEN conjunct2, THEN conjunct2, THEN conjunct2, THEN conjunct2,
    unfolded v(2-4), rule_format, OF le lt lt0, unfolded z lab, OF j e]
  from tm ev dens k1 k2 k3 k4 k5 show ?thesis by (intro exI [of _ tm] exI [of _ ev] exI [of _ dens] conjI)
qed

subsection \<open>The coefficients of a center\<close>

lemma forward_rows:
  assumes fw: "forward c b = Inr tm" and ev: "vector_expansion c b = Inr ev"
    and rc: "radial_contract c b" and hc: "harmonics_contract c b"
    and po: "pairs_offset b = Inr po"
    and l: "l \<le> l_max c" and a: "a < length (all_species c)"
    and j: "j < length (np_where (species b) (all_species c ! a))"
    and m: "m < 2 * l + 1" and s: "s < n_channels c" and n: "n < n_radial c b l"
  shows "rows3 (block_values (blocks tm ! (l * length (all_species c) + a))) ! j ! m
           ! (s * n_radial c b l + n) =
         pair_sum (selects c b po (np_where (species b) (all_species c ! a) ! j) s)
           (\<lambda>p. rows3 (block_values (blocks ev ! l)) ! p ! m ! source_column c (n_radial c b l) s n)
           (length (pairs b))"
proof -
  let ?w = "np_where (species b) (all_species c ! a)"
  from forward_block [OF fw rc hc l a] ev obtain dens where
    dens: "densities c b ev = Inr dens"
    and blk: "block_ai_l c b (dens ! l) (blocks ev ! l) l (all_species c ! a)
       = Inr (blocks tm ! (l * length (all_species c) + a))"
    by auto
  note B = block_ai_l_Inr [OF blk]
  note D = densities_rows [OF ev rc hc dens]
  have "?w ! j \<in> set ?w" using j by simp
  then have "?w ! j < fst (shape3 (dens ! l))" by (rule B(2))
  then have ctr: "?w ! j < length (centers b)" using D(6) [OF l] by simp
  have "rows3 (block_values (blocks tm ! (l * length (all_species c) + a))) ! j
      = rows3 (dens ! l) ! (?w ! j)"
    using B(1) j by simp
  then show ?thesis
    using D(7) [OF l po ctr m _ n, of s] s by (simp add: length_unique_species)
qed

subsection \<open>Reordering the pairs\<close>

lemma length_permute [simp]: "length (permute perm xs) = length perm"
  by (simp add: permute_def)

lemma permutation_set:
  assumes "mset perm = mset [0..<n]"
  shows "set perm = {0..<n}" and "length perm = n"
proof -
  from assms have "set_mset (mset perm) = set_mset (mset [0..<n])" by simp
  then show "set perm = {0..<n}" by simp
  from assms have "size (mset perm) = size (mset [0..<n])" by simp
  then show "length perm = n" by simp
qed

lemma mset_permute:
  assumes "mset perm = mset [0..<length xs]"
  shows "mset (permute perm xs) = mset xs"
proof -
  have "mset (permute perm xs) = image_mset (\<lambda>q. xs ! q) (mset perm)"
    by (simp add: permute_def)
  also have "\<dots> = image_mset (\<lambda>q. xs ! q) (mset [0..<length xs])"
    by (simp only: assms)
  also have "\<dots> = mset (map (\<lambda>q. xs ! q) [0..<length xs])" by simp
  also have "map (\<lambda>q. xs ! q) [0..<length xs] = xs" by (rule map_nth)
  finally show ?thesis .
qed

lemma set_permute:
  assumes "mset perm = mset [0..<length xs]"
  shows "set (permute perm xs) = set xs"
  using mset_permute [OF assms] by (metis set_mset_mset)

lemma permute_map:
  assumes "set perm \<subseteq> {0..<length xs}"
  shows "permute perm (map f xs) = map f (permute perm xs)"
  using assms by (auto simp: permute_def)

lemma permute_map2:
  assumes "set perm \<subseteq> {0..<length xs}" and "length ys = length xs"
  shows "map2 f (permute perm xs) (permute perm ys) = permute perm (map2 f xs ys)"
proof (rule nth_equalityI)
  show "length (map2 f (permute perm xs) (permute perm ys)) = length (permute perm (map2 f xs ys))"
    by simp
  fix i assume "i < length (map2 f (permute perm xs) (permute perm ys))"
  then have i: "i < length perm" by simp
  then have "perm ! i < length xs" using assms(1) by (metis atLeastLessThan_iff nth_mem subsetD)
  then show "map2 f (permute perm xs) (permute perm ys) ! i = permute perm (map2 f xs ys) ! i"
    using i assms(2) by (simp add: permute_def)
qed

lemma mapM_permute:
  assumes "mapM f xs = Inr ys" and "set perm \<subseteq> {0..<length xs}"
  shows "mapM f (permute perm xs) = Inr (permute perm ys)"
proof -
  from assms(1) have len: "length ys = length xs"
    and el: "\<And>i. i < length xs \<Longrightarrow> f (xs ! i) = Inr (ys ! i)"
    by (simp_all add: mapM_Inr_iff)
  have "f (permute perm xs ! i) = Inr (permute perm ys ! i)" if "i < length perm" for i
  proof -
    have "perm ! i < length xs" using that assms(2) by (metis atLeastLessThan_iff nth_mem subsetD)
    then show ?thesis using that el by (simp add: permute_def)
  qed
  then show ?thesis by (simp add: mapM_Inr_iff)
qed

lemma mapM_cong:
  "(\<And>x. x \<in> set xs \<Longrightarrow> f x = g x) \<Longrightarrow> mapM f xs = mapM g xs"
  by (induction xs) simp_all

lemma unique_cong: "set xs = set ys \<Longrightarrow> unique xs = unique ys"
proof -
  assume s: "set xs = set ys"
  have "sorted (unique xs)" "distinct (unique xs)" "set (unique xs) = set xs"
    "sorted (unique ys)" "distinct (unique ys)" "set (unique ys) = set ys"
    by (simp_all add: unique_def)
  then show ?thesis using s by (metis sorted_distinct_set_unique)
qed

lemma pairs_offset_permute:
  assumes po: "pairs_offset b = Inr po"
    and perm: "mset perm = mset [0..<length (structure_pairs b)]"
  shows "pairs_offset (permute_pairs perm b) = Inr (permute perm po)"
proof -
  let ?sp = "structure_pairs b"
  let ?offs = "cumsum (0 # butlast (unique_counts (structure_centers b)))"
  have sub: "set perm \<subseteq> {0..<length ?sp}" using permutation_set(1) [OF perm] by simp
  have u: "unique (permute perm ?sp) = unique ?sp"
    using set_permute [OF perm] by (rule unique_cong)
  have inv: "unique_inverse (permute perm ?sp) = permute perm (unique_inverse ?sp)"
    using sub by (simp add: unique_inverse_def u permute_map)
  from po have "mapM (getitem ?offs) (unique_inverse ?sp) = Inr po"
    by (simp add: pairs_offset_def Let_def index_tensor_def)
  then have "mapM (getitem ?offs) (permute perm (unique_inverse ?sp)) = Inr (permute perm po)"
    using sub by (intro mapM_permute) (simp_all add: unique_inverse_def)
  then show ?thesis
    by (simp add: pairs_offset_def Let_def index_tensor_def permute_pairs_def inv)
qed

lemma s_i_permute:
  assumes s_i: "s_i_metadata_to_unique b = Inr s_i"
    and len: "length (structure_pairs b) = length (pairs b)"
    and perm: "mset perm = mset [0..<length (pairs b)]"
  shows "s_i_metadata_to_unique (permute_pairs perm b) = Inr (permute perm s_i)"
proof -
  from s_i obtain po where po: "pairs_offset b = Inr po"
    and bc: "broadcast (+) (map fst (pairs b)) po = Inr s_i"
    by (auto simp: s_i_metadata_to_unique_def bnd_eq_Inr)
  have lpo: "length po = length (pairs b)" using pairs_offset_length [OF po] len by simp
  have sub: "set perm \<subseteq> {0..<length (pairs b)}" using permutation_set(1) [OF perm] by simp
  have s_eq: "s_i = map2 (+) (map fst (pairs b)) po" using bc lpo by (simp add: broadcast_def)
  have po': "pairs_offset (permute_pairs perm b) = Inr (permute perm po)"
    using po perm len by (intro pairs_offset_permute) simp_all
  have "map2 (+) (permute perm (map fst (pairs b))) (permute perm po) =
      permute perm (map2 (+) (map fst (pairs b)) po)"
    using sub lpo by (intro permute_map2) simp_all
  then have "broadcast (+) (map fst (permute perm (pairs b))) (permute perm po) = Inr (permute perm s_i)"
    using sub by (simp add: broadcast_def permute_map s_eq)
  then show ?thesis
    using po' by (simp add: s_i_metadata_to_unique_def permute_pairs_def)
qed


lemma sum_list_filter_mset:
  "mset xs = mset ys \<Longrightarrow> sum_list (map g (filter P xs)) = sum_list (map (g::'a \<Rightarrow> real) (filter P ys))"
proof -
  assume e: "mset xs = mset ys"
  have "sum_list (map g (filter P xs)) = sum_mset (image_mset g (filter_mset P (mset xs)))"
    by (metis mset_filter mset_map sum_mset_sum_list)
  also have "\<dots> = sum_mset (image_mset g (filter_mset P (mset ys)))" by (simp only: e)
  also have "\<dots> = sum_list (map g (filter P ys))"
    by (metis mset_filter mset_map sum_mset_sum_list)
  finally show ?thesis .
qed

lemma wf_rows_eqI:
  assumes "wf_rows b c X" and "wf_rows b c Y" and "length X = length Y"
    and "\<And>k m n. k < length X \<Longrightarrow> m < b \<Longrightarrow> n < c \<Longrightarrow> X ! k ! m ! n = Y ! k ! m ! n"
  shows "X = Y"
proof (rule nth_equalityI)
  show "length X = length Y" by (rule assms(3))
  fix k assume k: "k < length X"
  show "X ! k = Y ! k"
  proof (rule nth_equalityI)
    show "length (X ! k) = length (Y ! k)"
      using assms(1,2,3) k by (simp add: wf_rows_nth)
    fix m assume "m < length (X ! k)"
    then have m: "m < b" using assms(1) k by (simp add: wf_rows_nth)
    show "X ! k ! m = Y ! k ! m"
    proof (rule nth_equalityI)
      show "length (X ! k ! m) = length (Y ! k ! m)"
        using assms(1,2,3) k m by (simp add: wf_rows_nth_nth)
      fix n assume "n < length (X ! k ! m)"
      then have "n < c" using assms(1) k m by (simp add: wf_rows_nth_nth)
      then show "X ! k ! m ! n = Y ! k ! m ! n" using assms(4) k m by simp
    qed
  qed
qed

lemma wf_updates_mset:
  "mset xs = mset ys \<Longrightarrow> wf_updates a b c xs \<Longrightarrow> wf_updates a b c ys"
proof -
  assume "mset xs = mset ys"
  then have "set xs = set ys" by (metis set_mset_mset)
  then show "wf_updates a b c xs \<Longrightarrow> wf_updates a b c ys" by (simp add: wf_updates_def)
qed

lemma index_add_rows_mset:
  assumes e: "mset xs = mset ys" and wf: "wf_rows b c acc" and up: "wf_updates (length acc) b c xs"
  shows "index_add_rows acc xs = index_add_rows acc ys"
proof (rule wf_rows_eqI [of b c])
  have up': "wf_updates (length acc) b c ys" using e up by (rule wf_updates_mset)
  show "wf_rows b c (index_add_rows acc xs)" using wf up by (rule index_add_rows_wf)
  show "wf_rows b c (index_add_rows acc ys)" using wf up' by (rule index_add_rows_wf)
  show "length (index_add_rows acc xs) = length (index_add_rows acc ys)" by simp
  fix k m n assume "k < length (index_add_rows acc xs)" and m: "m < b" and n: "n < c"
  then have k: "k < length acc" by simp
  show "index_add_rows acc xs ! k ! m ! n = index_add_rows acc ys ! k ! m ! n"
    using index_add_rows_nth [OF wf up k m n] index_add_rows_nth [OF wf up' k m n]
      sum_list_filter_mset [OF e, of "\<lambda>(i, row). row ! m ! n" "\<lambda>(i, row). i = int k"]
    by simp
qed

lemma zip_permute:
  assumes "set perm \<subseteq> {0..<length xs}" and "length ys = length xs"
  shows "zip (permute perm xs) (permute perm ys) = permute perm (zip xs ys)"
proof (rule nth_equalityI)
  show "length (zip (permute perm xs) (permute perm ys)) = length (permute perm (zip xs ys))"
    by simp
  fix i assume "i < length (zip (permute perm xs) (permute perm ys))"
  then have i: "i < length perm" by simp
  then have "perm ! i < length xs" using assms(1) by (metis atLeastLessThan_iff nth_mem subsetD)
  then show "zip (permute perm xs) (permute perm ys) ! i = permute perm (zip xs ys) ! i"
    using i assms(2) by (simp add: permute_def)
qed

lemma index_add_permute:
  assumes ia: "index_add self index source = Inr acc"
    and self: "wf3 self" and src: "wf3 source"
    and perm: "mset perm = mset [0..<length index]"
  shows "index_add self (permute perm index) (source\<lparr>rows3 := permute perm (rows3 source)\<rparr>) = Inr acc"
proof -
  let ?b = "fst (snd (shape3 self))" and ?c = "snd (snd (shape3 self))"
  from ia have len: "length index = fst (shape3 source)"
    and sh: "snd (shape3 self) = snd (shape3 source)"
    and rng: "\<And>i. i \<in> set index \<Longrightarrow> 0 \<le> i \<and> i < int (fst (shape3 self))"
    and acc: "acc = self\<lparr>rows3 := index_add_rows (rows3 self) (zip index (rows3 source))\<rparr>"
    by (auto simp: index_add_def split: if_splits)
  have lp: "length perm = length index" and sp: "set perm = {0..<length index}"
    using permutation_set [OF perm] by simp_all
  have ls: "length (rows3 self) = fst (shape3 self)" and ws: "wf_rows ?b ?c (rows3 self)"
    using self by (simp_all add: wf3_def)
  have lsrc: "length (rows3 source) = length index" and wsrc: "wf_rows ?b ?c (rows3 source)"
    using src sh len by (simp_all add: wf3_def)
  have upd: "wf_updates (length (rows3 self)) ?b ?c (zip index (rows3 source))"
    unfolding wf_updates_def
  proof (intro ballI, clarify)
    fix i row assume "(i, row) \<in> set (zip index (rows3 source))"
    then have "i \<in> set index" "row \<in> set (rows3 source)"
      by (auto dest: set_zip_leftD set_zip_rightD)
    then show "0 \<le> i \<and> i < int (length (rows3 self)) \<and> length row = ?b \<and> (\<forall>u \<in> set row. length u = ?c)"
      using rng ls wsrc by (simp add: wf_rows_def)
  qed
  have z: "zip (permute perm index) (permute perm (rows3 source)) = permute perm (zip index (rows3 source))"
    using sp lsrc by (intro zip_permute) simp_all
  have pz: "mset perm = mset [0..<length (zip index (rows3 source))]"
    using perm lsrc by simp
  have ms: "mset (zip index (rows3 source)) = mset (permute perm (zip index (rows3 source)))"
    using mset_permute [OF pz] by simp
  have rows: "index_add_rows (rows3 self) (zip (permute perm index) (permute perm (rows3 source)))
      = index_add_rows (rows3 self) (zip index (rows3 source))"
    unfolding z using index_add_rows_mset [OF ms ws upd] by simp
  have "set (permute perm index) = set index" using perm by (rule set_permute)
  then have rng': "\<not> (\<exists>i \<in> set (permute perm index). i < 0 \<or> int (fst (shape3 self)) \<le> i)"
    using rng by force
  show ?thesis
    using len lp sh rng' rows by (simp add: index_add_def acc)
qed


lemma block_l_permute_rows:
  assumes "block_l ev l = Inr blk"
  shows "block_l (permute_rows perm ev) l = Inr (permute_block perm blk)"
  using assms by (auto simp: block_l_def permute_rows_def Let_def split: if_splits)

lemma block_values_permute_block:
  "block_values (permute_block perm blk) = (block_values blk)\<lparr>rows3 := permute perm (rows3 (block_values blk))\<rparr>"
  by (simp add: permute_block_def)

lemma shape3_permute_block [simp]:
  "shape3 (block_values (permute_block perm blk)) = shape3 (block_values blk)"
  by (simp add: permute_block_def)

lemma column_permute_block:
  assumes "set perm \<subseteq> {0..<length (entries (samples blk))}"
  shows "column (samples (permute_block perm blk)) name = permute perm (column (samples blk) name)"
  using assms by (simp add: column_def permute_block_def permute_map)

lemma block_ai_l_permute:
  "block_ai_l c (permute_pairs perm b) d (permute_block perm vb) l = block_ai_l c b d vb l"
  by (rule ext) (simp add: block_ai_l_def permute_pairs_def permute_block_def)

lemma densities_l_alchemical_permute:
  assumes d: "densities_l_alchemical C idx ev l = Inr t"
    and blk: "block_l ev l = Inr vb" and wf: "wf3 (block_values vb)"
    and perm: "mset perm = mset [0..<length idx]"
  shows "densities_l_alchemical C (permute perm idx) (permute_rows perm ev) l = Inr t"
proof -
  let ?v = "block_values vb"
  from d blk obtain acc where
    acc: "index_add (zeros3 C (fst (snd (shape3 ?v))) (snd (snd (shape3 ?v)))) idx ?v = Inr acc"
    and t: "reshape3 C (2 * l + 1) (flat3 (rows3 acc)) = Inr t"
    by (auto simp: densities_l_alchemical_def bnd_eq_Inr Let_def)
  have "index_add (zeros3 C (fst (snd (shape3 ?v))) (snd (snd (shape3 ?v)))) (permute perm idx)
      (?v\<lparr>rows3 := permute perm (rows3 ?v)\<rparr>) = Inr acc"
    using acc wf3_zeros3 wf perm by (rule index_add_permute)
  then show ?thesis
    using t block_l_permute_rows [OF blk, of perm]
    by (simp add: densities_l_alchemical_def Let_def block_values_permute_block)
qed

lemma densities_l_standard_permute:
  assumes d: "densities_l_standard C S idx ev l = Inr t"
    and blk: "block_l ev l = Inr vb" and wf: "wf3 (block_values vb)"
    and perm: "mset perm = mset [0..<length idx]"
  shows "densities_l_standard C S (permute perm idx) (permute_rows perm ev) l = Inr t"
proof -
  let ?v = "block_values vb"
  from d blk obtain acc where
    acc: "index_add (zeros3 (C * S) (fst (snd (shape3 ?v))) (snd (snd (shape3 ?v)))) idx ?v = Inr acc"
    and t: "bnd (reshape4 C S (2 * l + 1) (flat3 (rows3 acc)))
              (\<lambda>t. reshape3 C (2 * l + 1) (flat4 (rows4 (swapaxes_1_2 t)))) = Inr t"
    by (auto simp: densities_l_standard_def bnd_eq_Inr Let_def)
  have "index_add (zeros3 (C * S) (fst (snd (shape3 ?v))) (snd (snd (shape3 ?v)))) (permute perm idx)
      (?v\<lparr>rows3 := permute perm (rows3 ?v)\<rparr>) = Inr acc"
    using acc wf3_zeros3 wf perm by (rule index_add_permute)
  then show ?thesis
    using t block_l_permute_rows [OF blk, of perm]
    by (simp add: densities_l_standard_def Let_def block_values_permute_block)
qed


lemma densities_permute:
  assumes ev: "vector_expansion c b = Inr ev"
    and rc: "radial_contract c b" and hc: "harmonics_contract c b"
    and d: "densities c b ev = Inr dens"
    and perm: "mset perm = mset [0..<length (pairs b)]"
  shows "densities c (permute_pairs perm b) (permute_rows perm ev) = Inr dens"
proof -
  let ?C = "length (centers b)" and ?P = "length (pairs b)"
  let ?b' = "permute_pairs perm b" and ?ev' = "permute_rows perm ev"
  note E = vector_expansion_blocks [OF ev rc hc]
  from ev obtain cv where cv: "get_cartesian_vectors b = Inr cv"
    by (auto simp: vector_expansion_def bnd_eq_Inr)
  from get_cartesian_vectors_samples [OF cv] obtain po0 where
    po0: "pairs_offset b = Inr po0" "length po0 = ?P"
    and lsp: "length (structure_pairs b) = ?P"
    and en: "entries (csamples cv) = map (pair_label b po0) [0..<?P]"
    by blast
  have sub: "set perm \<subseteq> {0..<?P}" using permutation_set(1) [OF perm] by simp
  have b0: "block_l ev 0 = Inr (blocks ev ! 0)" using E(4) [of 0] by simp
  have smp0: "samples (blocks ev ! 0) = csamples cv" using E(8) [of 0, OF _ cv] by simp
  have b0': "block_l ?ev' 0 = Inr (permute_block perm (blocks ev ! 0))"
    using b0 by (rule block_l_permute_rows)
  from d b0 have st: "stack_last [structure_centers b, centers b] RuntimeError \<noteq> Inl RuntimeError"
    by (auto simp: densities_def bnd_eq_Inr Let_def)
  then obtain u where u: "stack_last [structure_centers b, centers b] RuntimeError = Inr u"
    by (auto simp: stack_last_def split: if_splits)
  have u': "stack_last [structure_centers ?b', centers ?b'] RuntimeError = Inr u"
    using u by (simp add: permute_pairs_def)
  have cen: "centers ?b' = centers b" by (simp add: permute_pairs_def)
  have bl: "block_l ev l = Inr (blocks ev ! l)" and wv: "wf3 (block_values (blocks ev ! l))"
    if "l \<le> l_max c" for l
    using E(4) [OF that] E(5) [OF that] by simp_all
  have lset: "\<And>l. l \<in> set [0..<l_max c + 1] \<Longrightarrow> l \<le> l_max c" by auto
  show ?thesis
  proof (cases "is_alchemical c")
    case True
    from d b0 u True obtain s_i where
      s_i: "s_i_metadata_to_unique b = Inr s_i"
      and mm: "mapM (densities_l_alchemical ?C s_i ev) [0..<l_max c + 1] = Inr dens"
      by (auto simp: densities_def bnd_eq_Inr Let_def)
    have ls: "length s_i = ?P"
      using s_i_metadata_to_unique_Inr [OF s_i po0] by simp
    have s_i': "s_i_metadata_to_unique ?b' = Inr (permute perm s_i)"
      using s_i lsp perm by (rule s_i_permute)
    have pl: "mset perm = mset [0..<length s_i]" using perm ls by simp
    have "mapM (densities_l_alchemical ?C (permute perm s_i) ?ev') [0..<l_max c + 1]
        = mapM (densities_l_alchemical ?C s_i ev) [0..<l_max c + 1]"
    proof (rule mapM_cong)
      fix l assume "l \<in> set [0..<l_max c + 1]"
      then have l: "l \<le> l_max c" by (rule lset)
      from mapM_upt_nth(2) [OF mm l] have dl: "densities_l_alchemical ?C s_i ev l = Inr (dens ! l)" .
      show "densities_l_alchemical ?C (permute perm s_i) ?ev' l = densities_l_alchemical ?C s_i ev l"
        using densities_l_alchemical_permute [OF dl bl [OF l] wv [OF l] pl] dl by simp
    qed
    then show ?thesis
      using b0' u' True s_i' mm cen by (simp add: densities_def Let_def)
  next
    case False
    from d b0 u False smp0 obtain idx where
      idx: "density_indices_standard c b (csamples cv) = Inr idx"
      and mm: "mapM (densities_l_standard ?C (length (all_species c)) idx ev) [0..<l_max c + 1] = Inr dens"
      by (auto simp: densities_def bnd_eq_Inr Let_def)
    from idx obtain s_i aj where s_i: "s_i_metadata_to_unique b = Inr s_i"
      and aj: "mapM (species_to_index c) (column (csamples cv) ''species_neighbor'') = Inr aj"
      and bc: "broadcast (\<lambda>s a. s * int (length (all_species c)) + a) s_i aj = Inr idx"
      by (auto simp: density_indices_standard_def bnd_eq_Inr)
    have ls: "length s_i = ?P"
      using s_i_metadata_to_unique_Inr [OF s_i po0] by simp
    have lcol: "length (column (csamples cv) ''species_neighbor'') = ?P"
      using en by (simp add: column_def)
    have laj: "length aj = ?P" using aj lcol by (simp add: mapM_Inr_iff)
    have idx_eq: "idx = map2 (\<lambda>s a. s * int (length (all_species c)) + a) s_i aj"
      using bc ls laj by (simp add: broadcast_def)
    have li: "length idx = ?P" using ls laj by (simp add: idx_eq)
    have s_i': "s_i_metadata_to_unique ?b' = Inr (permute perm s_i)"
      using s_i lsp perm by (rule s_i_permute)
    have col': "column (samples (permute_block perm (blocks ev ! 0))) ''species_neighbor''
        = permute perm (column (csamples cv) ''species_neighbor'')"
      using column_permute_block [of perm "blocks ev ! 0"] sub smp0 en by simp
    have aj': "mapM (species_to_index c) (permute perm (column (csamples cv) ''species_neighbor''))
        = Inr (permute perm aj)"
      using aj sub lcol by (intro mapM_permute) simp_all
    have "map2 (\<lambda>s a. s * int (length (all_species c)) + a) (permute perm s_i) (permute perm aj)
        = permute perm idx"
      unfolding idx_eq using sub ls laj by (intro permute_map2) simp_all
    then have idx': "density_indices_standard c ?b' (samples (permute_block perm (blocks ev ! 0)))
        = Inr (permute perm idx)"
      using s_i' aj' col' by (simp add: density_indices_standard_def broadcast_def)
    have pl: "mset perm = mset [0..<length idx]" using perm li by simp
    have "mapM (densities_l_standard ?C (length (all_species c)) (permute perm idx) ?ev') [0..<l_max c + 1]
        = mapM (densities_l_standard ?C (length (all_species c)) idx ev) [0..<l_max c + 1]"
    proof (rule mapM_cong)
      fix l assume "l \<in> set [0..<l_max c + 1]"
      then have l: "l \<le> l_max c" by (rule lset)
      from mapM_upt_nth(2) [OF mm l]
      have dl: "densities_l_standard ?C (length (all_species c)) idx ev l = Inr (dens ! l)" .
      show "densities_l_standard ?C (length (all_species c)) (permute perm idx) ?ev' l
          = densities_l_standard ?C (length (all_species c)) idx ev l"
        using densities_l_standard_permute [OF dl bl [OF l] wv [OF l] pl] dl by simp
    qed
    then show ?thesis
      using b0' u' False idx' mm cen by (simp add: densities_def Let_def)
  qed
qed

lemma density_aggregator_permute:
  assumes ev: "vector_expansion c b = Inr ev"
    and rc: "radial_contract c b" and hc: "harmonics_contract c b"
    and ag: "density_aggregator c b ev = Inr tm"
    and perm: "mset perm = mset [0..<length (pairs b)]"
  shows "density_aggregator c (permute_pairs perm b) (permute_rows perm ev) = Inr tm"
proof -
  from ag obtain dens where dens: "densities c b ev = Inr dens"
    and rest: "bnd (mapM (blocks_l c b dens ev) [0..<l_max c + 1]) (\<lambda>bs.
        Inr \<lparr>keys = \<lparr>names = [''a_i'', ''lam'', ''sigma''], entries = key_labels c\<rparr>,
             blocks = concat bs\<rparr>) = Inr tm"
    by (auto simp: density_aggregator_def bnd_eq_Inr)
  note E = vector_expansion_blocks [OF ev rc hc]
  have "mapM (blocks_l c (permute_pairs perm b) dens (permute_rows perm ev)) [0..<l_max c + 1]
      = mapM (blocks_l c b dens ev) [0..<l_max c + 1]"
  proof (rule mapM_cong)
    fix l assume "l \<in> set [0..<l_max c + 1]"
    then have l: "l \<le> l_max c" by auto
    have bl: "block_l ev l = Inr (blocks ev ! l)" using E(4) [OF l] .
    show "blocks_l c (permute_pairs perm b) dens (permute_rows perm ev) l = blocks_l c b dens ev l"
      using bl block_l_permute_rows [OF bl, of perm]
      by (simp add: blocks_l_def block_ai_l_permute)
  qed
  then show ?thesis
    using densities_permute [OF ev rc hc dens perm] rest
    by (simp add: density_aggregator_def)
qed

subsection \<open>The layout of the columns in the standard mode\<close>

lemma np_repeat_nth:
  assumes "s < length xs" and "n < R"
  shows "np_repeat xs R ! (s * R + n) = xs ! s"
proof -
  have "concat (map (replicate R) xs) ! (s * R + n) = map (replicate R) xs ! s ! n"
    using assms by (intro nth_concat_uniform) auto
  then show ?thesis using assms by (simp add: np_repeat_def)
qed

lemma np_tile_nth:
  assumes "s < S" and "n < length ys"
  shows "np_tile ys S ! (s * length ys + n) = ys ! n"
proof -
  have "concat (replicate S ys) ! (s * length ys + n) = replicate S ys ! s ! n"
    using assms by (intro nth_concat_uniform) auto
  then show ?thesis using assms by (simp add: np_tile_def)
qed

lemma length_arange [simp]: "length (arange n) = n"
  by (simp add: arange_def)

lemma distinct_arange: "distinct (arange n)"
  by (simp add: arange_def distinct_map inj_on_def)

lemma column_n_standard:
  "column \<lparr>names = [''n''], entries = map (\<lambda>n. [n]) xs\<rparr> ''n'' = xs"
  by (simp add: column_def comp_def)

lemma n_count_standard:
  "length (remdups (column \<lparr>names = [''n''], entries = map (\<lambda>n. [n]) (arange R)\<rparr> ''n'')) = R"
  by (simp add: column_n_standard distinct_remdups_id distinct_arange)

lemma standard_properties:
  assumes st: "stack_last [np_repeat xs R, np_tile (arange R) (length xs), replicate K (int l)] ValueError
      = Inr props"
    and s: "s < length xs" and n: "n < R"
  shows "props ! (s * R + n) = [xs ! s, int n, int l]"
proof -
  note S = stack_last_Inr [OF st]
  have k: "s * R + n < length xs * R" using s n by (rule index_in_grid)
  have K: "K = length xs * R" using S(2) [of "replicate K (int l)"] by simp
  have "props ! (s * R + n) =
      [np_repeat xs R ! (s * R + n), np_tile (arange R) (length xs) ! (s * R + n),
       replicate K (int l) ! (s * R + n)]"
    using S(3) [of "s * R + n"] k by simp
  moreover have "np_repeat xs R ! (s * R + n) = xs ! s" using s n by (rule np_repeat_nth)
  moreover have "np_tile (arange R) (length xs) ! (s * length (arange R) + n) = arange R ! n"
    using s n by (intro np_tile_nth) simp_all
  moreover have "arange R ! n = int n" using n by (simp add: arange_def)
  ultimately show ?thesis using k K by simp
qed

text \<open>
  In the standard (discrete-species) mode, when \<open>forward\<close> returns and the providers have
  kept their contracts: the slot of every pair \<open>p\<close> is
  \<open>shifted_center p * n_species + channel\<close>, where \<open>channel\<close> is the index that
  \<open>species_to_index\<close> gives to the stored label \<open>species_neighbor\<close> of the pair; the Vector
  Expansion rows are added into a zero accumulator of \<open>n_centers * n_species\<close> rows at these
  slots; and the output column \<open>s * n_radial + n\<close> of the row of the atom at position
  \<open>ctr\<close> of the batch is the entry \<open>n\<close> of the accumulator row \<open>ctr * n_species + s\<close>,
  with the property label \<open>(all_species ! s, n, l)\<close>: species-major, radial-minor.
\<close>

lemma standard_slots_and_layout:
  assumes "forward c b = Inr tm" and "vector_expansion c b = Inr ev"
    and "radial_basis_calculator c = Standard rbc"
    and "radial_contract c b" and "harmonics_contract c b"
    and "pairs_offset b = Inr po"
  shows "\<exists>idx. density_indices_standard c b (samples (blocks ev ! 0)) = Inr idx \<and>
     length idx = length (pairs b) \<and>
     (\<forall>p < length (pairs b). \<exists>ch < length (all_species c).
        species_to_index c (species_neighbor_label b po p) = Inr (int ch) \<and>
        idx ! p = shifted_center b po p * int (length (all_species c)) + int ch) \<and>
     (\<forall>l \<le> l_max c. \<exists>acc.
        index_add (zeros3 (length (centers b) * length (all_species c)) (2 * l + 1) (n_radial c b l))
          idx (block_values (blocks ev ! l)) = Inr acc \<and>
        (\<forall>a < length (all_species c). \<forall>j < length (np_where (species b) (all_species c ! a)).
         \<forall>s < length (all_species c). \<forall>n < n_radial c b l.
           (\<forall>m < 2 * l + 1.
              rows3 (block_values (blocks tm ! (l * length (all_species c) + a))) ! j ! m
                ! (s * n_radial c b l + n) =
              rows3 acc ! (np_where (species b) (all_species c ! a) ! j * length (all_species c) + s)
                ! m ! n) \<and>
           entries (properties (blocks tm ! (l * length (all_species c) + a))) ! (s * n_radial c b l + n)
             = [all_species c ! s, int n, int l]))"
proof -
  let ?S = "length (all_species c)" and ?C = "length (centers b)" and ?P = "length (pairs b)"
  note fw = assms(1) and ev = assms(2) and mode = assms(3) and rc = assms(4) and hc = assms(5)
    and po = assms(6)
  note E = vector_expansion_blocks [OF ev rc hc]
  from vector_expansion_standard [OF ev mode rc hc] obtain cv ts sh where
    cv: "get_cartesian_vectors b = Inr cv" and ro: "radial_output c b = Some (Inl ts)"
    and pr: "\<And>l. l \<le> l_max c \<Longrightarrow> properties (blocks ev ! l) =
          \<lparr>names = [''n''], entries = map (\<lambda>n. [n]) (arange (snd (shape2 (ts ! l))))\<rparr>"
    by blast
  have nr: "n_radial c b l = snd (shape2 (ts ! l))" for l
    using ro by (simp add: n_radial_def)
  have nc: "n_columns c b l = n_radial c b l" for l
    using mode by (simp add: n_columns_def)
  have na: "\<not> is_alchemical c" using mode by simp
  have us: "unique_species c = all_species c" using mode by (rule length_unique_species_standard)
  from get_cartesian_vectors_samples [OF cv] po obtain
    lpo: "length po = ?P"
    and nm: "names (csamples cv) = sample_names"
    and en: "entries (csamples cv) = map (pair_label b po) [0..<?P]"
    by auto
  have col: "column (csamples cv) ''species_neighbor'' = map (species_neighbor_label b po) [0..<?P]"
    using nm en by (rule column_species_neighbor)
  have b0: "block_l ev 0 = Inr (blocks ev ! 0)" using E(4) [of 0] by simp
  have smp0: "samples (blocks ev ! 0) = csamples cv" using E(8) [of 0, OF _ cv] by simp
  from forward_Inr [OF fw] ev have ag: "density_aggregator c b ev = Inr tm" by simp
  from density_aggregator_Inr [OF ag] obtain dens where
    dens: "densities c b ev = Inr dens"
    and blks: "\<And>l a. l \<le> l_max c \<Longrightarrow> a < ?S \<Longrightarrow> \<exists>vb. block_l ev l = Inr vb \<and>
          block_ai_l c b (dens ! l) vb l (all_species c ! a) = Inr (blocks tm ! (l * ?S + a))"
    by blast
  from dens b0 na smp0 obtain idx where
    idx: "density_indices_standard c b (csamples cv) = Inr idx"
    and mm: "mapM (densities_l_standard ?C ?S idx ev) [0..<l_max c + 1] = Inr dens"
    by (auto simp: densities_def bnd_eq_Inr Let_def split: if_splits)
  note di = density_indices_standard_Inr [OF idx po lpo col]
  have keys: "\<forall>p < ?P. \<exists>ch < ?S.
        species_to_index c (species_neighbor_label b po p) = Inr (int ch) \<and>
        idx ! p = shifted_center b po p * int ?S + int ch"
    using di(2) by blast
  have per: "\<exists>acc.
        index_add (zeros3 (?C * ?S) (2 * l + 1) (n_radial c b l)) idx (block_values (blocks ev ! l)) = Inr acc \<and>
        (\<forall>a < ?S. \<forall>j < length (np_where (species b) (all_species c ! a)).
         \<forall>s < ?S. \<forall>n < n_radial c b l.
           (\<forall>m < 2 * l + 1.
              rows3 (block_values (blocks tm ! (l * ?S + a))) ! j ! m ! (s * n_radial c b l + n) =
              rows3 acc ! (np_where (species b) (all_species c ! a) ! j * ?S + s) ! m ! n) \<and>
           entries (properties (blocks tm ! (l * ?S + a))) ! (s * n_radial c b l + n)
             = [all_species c ! s, int n, int l])"
    if l: "l \<le> l_max c" for l
  proof -
    have bl: "block_l ev l = Inr (blocks ev ! l)" using E(4) [OF l] .
    have sv: "shape3 (block_values (blocks ev ! l)) = (length (direction_vectors b), 2 * l + 1, n_radial c b l)"
      using E(6) [OF l] by (simp add: nc)
    from densities_l_standard_Inr [OF mapM_upt_nth(2) [OF mm l] bl E(5) [OF l] sv] obtain acc where
      acc: "index_add (zeros3 (?C * ?S) (2 * l + 1) (n_radial c b l)) idx (block_values (blocks ev ! l)) = Inr acc"
      and sd: "shape3 (dens ! l) = (?C, 2 * l + 1, ?S * n_radial c b l)"
      and el: "\<And>ctr m s n. ctr < ?C \<Longrightarrow> m < 2 * l + 1 \<Longrightarrow> s < ?S \<Longrightarrow> n < n_radial c b l \<Longrightarrow>
        rows3 (dens ! l) ! ctr ! m ! (s * n_radial c b l + n) = rows3 acc ! (ctr * ?S + s) ! m ! n"
      by blast
    have "(\<forall>m < 2 * l + 1.
              rows3 (block_values (blocks tm ! (l * ?S + a))) ! j ! m ! (s * n_radial c b l + n) =
              rows3 acc ! (np_where (species b) (all_species c ! a) ! j * ?S + s) ! m ! n) \<and>
           entries (properties (blocks tm ! (l * ?S + a))) ! (s * n_radial c b l + n)
             = [all_species c ! s, int n, int l]"
      if a: "a < ?S" and j: "j < length (np_where (species b) (all_species c ! a))"
        and s: "s < ?S" and n: "n < n_radial c b l" for a j s n
    proof -
      let ?w = "np_where (species b) (all_species c ! a)"
      from blks [OF l a] bl have
        blk: "block_ai_l c b (dens ! l) (blocks ev ! l) l (all_species c ! a) = Inr (blocks tm ! (l * ?S + a))"
        by simp
      note B = block_ai_l_Inr [OF blk]
      have "?w ! j \<in> set ?w" using j by simp
      then have ctr: "?w ! j < ?C" using B(2) [of "?w ! j"] sd by simp
      have row: "rows3 (block_values (blocks tm ! (l * ?S + a))) ! j = rows3 (dens ! l) ! (?w ! j)"
        using B(1) j by simp
      have 1: "\<forall>m < 2 * l + 1.
              rows3 (block_values (blocks tm ! (l * ?S + a))) ! j ! m ! (s * n_radial c b l + n) =
              rows3 acc ! (?w ! j * ?S + s) ! m ! n"
        using el [OF ctr _ s n] row by simp
      have nn: "length (remdups (column (properties (blocks ev ! l)) ''n'')) = n_radial c b l"
        using pr [OF l] by (simp add: n_count_standard nr)
      have "stack_last [np_repeat (all_species c) (n_radial c b l),
            np_tile (arange (n_radial c b l)) ?S,
            replicate (snd (snd (shape3 (dens ! l)))) (int l)] ValueError
          = Inr (entries (properties (blocks tm ! (l * ?S + a))))"
        using B(8) by (simp only: nn us)
      then have 2: "entries (properties (blocks tm ! (l * ?S + a))) ! (s * n_radial c b l + n)
             = [all_species c ! s, int n, int l]"
        using s n by (rule standard_properties)
      from 1 2 show ?thesis by (rule conjI)
    qed
    with acc show ?thesis by blast
  qed
  have i0: "density_indices_standard c b (samples (blocks ev ! 0)) = Inr idx"
    using idx smp0 by simp
  from i0 di(1) keys per show ?thesis by blast
qed

text \<open>
  C2 fails on the code, by the defect of the offsets. In the batch \<open>o_then_h2\<close> both
  Vector Expansion rows have the value 1; pair 1 has the center \<open>(structure 1, center 1)\<close>
  and no pair has the center \<open>(structure 0, center 0)\<close>. Yet the row of the atom
  \<open>(1, 1)\<close> is zero, and the row of the atom \<open>(0, 0)\<close> holds the value of pair 0.
\<close>

theorem reduction_attributes_pairs_to_wrong_center:
  "map_sum id (\<lambda>ev. rows3 (block_values (blocks ev ! 0)))
      (vector_expansion standard_calculator o_then_h2) = Inr [[[1]], [[1]]] \<and>
   zip (structure_pairs o_then_h2) (map fst (pairs o_then_h2)) = [(1, 0), (1, 1)] \<and>
   block_samples (forward standard_calculator o_then_h2) = Inr [[[1, 0], [1, 1]], [[0, 0]]] \<and>
   block_rows (forward standard_calculator o_then_h2) = Inr [[[[0, 1]], [[0, 0]]], [[[1, 0]]]]"
  by code_simp

text \<open>
  C5 fails on the code, by the defect of the offsets. In the batch \<open>o_then_h2\<close> the centers
  of the pairs 0 and 1 are the atoms at the positions 1 and 2 of the batch, and both
  neighbors are hydrogen, of channel 0: with two species the slots of the two pairs are
  \<open>1 * 2 + 0 = 2\<close> and \<open>2 * 2 + 0 = 4\<close>. The slots at which the code accumulates the two pairs
  are 0 and 3.
\<close>

theorem pairs_accumulated_at_wrong_slots:
  "map (center_atom o_then_h2) [0, 1] = [1, 2] \<and>
   map (\<lambda>p. species o_then_h2 ! neighbor_atom o_then_h2 p) [0, 1] = [1, 1] \<and>
   mapM (\<lambda>p. bnd (species_to_index standard_calculator (species o_then_h2 ! neighbor_atom o_then_h2 p))
           (\<lambda>channel. Inr (int (center_atom o_then_h2 p) *
              int (length (all_species standard_calculator)) + channel))) [0, 1] = Inr [2, 4] \<and>
   bnd (vector_expansion standard_calculator o_then_h2) (\<lambda>ev.
     bnd (block_l ev 0) (\<lambda>blk.
       density_indices_standard standard_calculator o_then_h2 (samples blk))) = Inr [0, 3]"
  by code_simp

subsection \<open>A batch without pairs\<close>

text \<open>
  C8 fails on the code. The batch \<open>lone_atom\<close> has one atom and no pair; the radial basis
  and the spherical harmonics return tensors without rows, and the Vector Expansion raises
  at the reshape of line 351, whose inferred dimension \<open>-1\<close> is undetermined for a tensor
  without elements: there is no block of zero rows, and \<open>forward\<close> fails with it.
\<close>

theorem vector_expansion_fails_without_pairs:
  "pairs lone_atom = [] \<and>
   map_sum id (\<lambda>cv. entries (csamples cv)) (get_cartesian_vectors lone_atom) = Inr [] \<and>
   unit_radial [] \<lparr>names = sample_names, entries = []\<rparr> = Inr [\<lparr>shape2 = (0, 1), rows2 = []\<rparr>] \<and>
   unit_harmonics [] = Inr \<lparr>shape2 = (0, 1), rows2 = []\<rparr> \<and>
   map_sum id (\<lambda>ev. length (blocks ev)) (vector_expansion standard_calculator lone_atom)
     = Inl RuntimeError \<and>
   map_sum id (\<lambda>ev. length (blocks ev)) (vector_expansion alchemical_calculator lone_atom)
     = Inl RuntimeError"
  by code_simp

subsection \<open>Species outside the vocabulary\<close>



text \<open>
  C9 fails on the code, by the defect of the offsets. In the batch \<open>c_then_h2\<close> the carbon
  atom is alone in its structure: it is the center of no pair and the neighbor of no pair
  (both neighbors are the hydrogen atoms at the positions 2 and 1), and hydrogen is in the
  vocabulary. Yet \<open>forward\<close> raises the \<open>KeyError\<close> of carbon in the standard mode: the label
  \<open>species_neighbor\<close> stored for pair 1 is the species at the shifted index 0, the carbon
  atom. When the carbon atom stands in the structure of the hydrogen molecule
  (\<open>h2_and_c\<close>), \<open>forward\<close> returns and no block has a row for it.
\<close>

theorem unknown_center_species_raises:
  "species c_then_h2 = [6, 1, 1] \<and> all_species standard_calculator = [1, 8] \<and>
   map (neighbor_atom c_then_h2) [0, 1] = [2, 1] \<and>
   map (\<lambda>p. species c_then_h2 ! neighbor_atom c_then_h2 p) [0, 1] = [1, 1] \<and>
   map_sum id (\<lambda>cv. column (csamples cv) ''species_neighbor'') (get_cartesian_vectors c_then_h2)
     = Inr [1, 6] \<and>
   block_samples (forward standard_calculator c_then_h2) = Inl (KeyError 6) \<and>
   block_samples (forward standard_calculator h2_and_c) = Inr [[[0, 0], [0, 1]], []]"
  by code_simp

subsection \<open>The inputs in the store\<close>

lemma frame_return: "frame n (return_st r)"
  by (simp add: frame_def return_st_def)

lemma frame_alloc: "frame n (alloc v)"
  by (simp add: frame_def alloc_def)

lemma frame_load: "frame n (load a)"
  by (simp add: frame_def load_def)

lemma frame_bnd:
  assumes "frame n m"
    and "\<And>s x s'. n \<le> length s \<Longrightarrow> m s = (Inr x, s') \<Longrightarrow> frame n (f x)"
  shows "frame n (bnd_st m f)"
  unfolding frame_def
proof (intro allI impI)
  fix s :: store assume n: "n \<le> length s"
  obtain r s' where ms: "m s = (r, s')" by (cases "m s")
  from assms(1) n ms have s': "n \<le> length s'" "take n s' = take n s"
    by (auto simp: frame_def dest!: spec [of _ s])
  show "n \<le> length (snd (bnd_st m f s)) \<and> take n (snd (bnd_st m f s)) = take n s"
  proof (cases r)
    case (Inl e)
    then show ?thesis using ms s' by (simp add: bnd_st_def)
  next
    case (Inr x)
    then have "frame n (f x)" using assms(2) [OF n] ms by simp
    then have "n \<le> length (snd (f x s')) \<and> take n (snd (f x s')) = take n s'"
      using s'(1) by (simp add: frame_def)
    then show ?thesis using ms Inr s'(2) by (simp add: bnd_st_def)
  qed
qed

lemma frame_bnd_all:
  assumes "frame n m" and "\<And>x. frame n (f x)"
  shows "frame n (bnd_st m f)"
  using assms by (intro frame_bnd)

lemma frame_mapM:
  assumes "\<And>x. frame n (f x)"
  shows "frame n (mapM_st f xs)"
  by (induction xs) (auto intro!: frame_return frame_bnd_all assms)

lemma frame_load_ints: "frame n (load_ints a)"
  by (auto simp: load_ints_def intro!: frame_bnd_all frame_load frame_return)

lemma frame_load_pairs: "frame n (load_pairs a)"
  by (auto simp: load_pairs_def intro!: frame_bnd_all frame_load frame_return)

lemma frame_load_shifts: "frame n (load_shifts a)"
  by (auto simp: load_shifts_def intro!: frame_bnd_all frame_load frame_return)

lemma frame_load_vectors: "frame n (load_vectors a)"
  by (auto simp: load_vectors_def intro!: frame_bnd_all frame_load frame_return)

lemma frame_load_reals: "frame n (load_reals a)"
  by (auto simp: load_reals_def intro!: frame_bnd_all frame_load frame_return)

lemma frame_load_batch: "frame n (load_batch r)"
  unfolding load_batch_def
  by (intro frame_bnd_all frame_load_ints frame_load_pairs frame_load_shifts
      frame_load_vectors frame_return)

text \<open>A write at a position from \<open>n\<close> on keeps the first \<open>n\<close> tensors.\<close>

lemma frame_index_add_inplace:
  assumes "n \<le> a"
  shows "frame n (index_add_inplace a index source)"
  using assms
  by (auto simp: frame_def index_add_inplace_def split: cell.splits sum.splits)

lemma alloc_result: "alloc v s = (Inr x, s') \<Longrightarrow> x = length s"
  by (auto simp: alloc_def)

lemma frame_accumulate:
  "frame n (bnd_st (alloc v) (\<lambda>densities_l.
     bnd_st (index_add_inplace densities_l index source) (\<lambda>_.
     bnd_st (load_reals densities_l) (\<lambda>t. return_st (g t)))))"
proof (rule frame_bnd [OF frame_alloc])
  fix s :: store and x s'
  assume "n \<le> length s" and "alloc v s = (Inr x, s')"
  then have "n \<le> x" by (auto dest: alloc_result)
  then show "frame n (bnd_st (index_add_inplace x index source) (\<lambda>_.
     bnd_st (load_reals x) (\<lambda>t. return_st (g t))))"
    by (intro frame_bnd_all frame_index_add_inplace frame_load_reals frame_return)
qed

lemma frame_densities_l_alchemical_st:
  "frame n (densities_l_alchemical_st n_centers density_indices expanded_vectors l)"
  unfolding densities_l_alchemical_st_def Let_def
  by (intro frame_bnd_all frame_return frame_accumulate)

lemma frame_densities_l_standard_st:
  "frame n (densities_l_standard_st n_centers n_species density_indices expanded_vectors l)"
  unfolding densities_l_standard_st_def Let_def
  by (intro frame_bnd_all frame_return frame_accumulate)

lemma frame_densities_st: "frame n (densities_st c b expanded_vectors)"
proof (cases "is_alchemical c")
  case True
  then show ?thesis
    unfolding densities_st_def Let_def
    by (simp only: if_True)
      (intro frame_bnd_all frame_return frame_alloc frame_mapM frame_densities_l_alchemical_st)
next
  case False
  then show ?thesis
    unfolding densities_st_def Let_def
    by (simp only: if_False)
      (intro frame_bnd_all frame_return frame_alloc frame_mapM frame_densities_l_standard_st)
qed

lemma frame_forward_st: "frame n (forward_st c r)"
  unfolding forward_st_def
  by (intro frame_bnd_all frame_load_batch frame_return frame_densities_st frame_load_ints)

subsection \<open>The result on references\<close>

lemma fst_return_st [simp]: "fst (return_st r s) = r"
  by (simp add: return_st_def)

lemma fst_bnd_st:
  assumes "\<And>s. fst (m s) = r" and "\<And>x s. fst (f x s) = g x"
  shows "fst (bnd_st m f s) = bnd r g"
proof -
  obtain r' s' where ms: "m s = (r', s')" by (cases "m s")
  then have "r' = r" using assms(1) [of s] by simp
  then show ?thesis using ms assms(2) by (cases r) (simp_all add: bnd_st_def bnd_def)
qed

lemma fst_mapM_st:
  assumes "\<And>x s. fst (f x s) = g x"
  shows "fst (mapM_st f xs s) = mapM g xs"
proof (induction xs arbitrary: s)
  case Nil
  then show ?case by simp
next
  case (Cons x xs)
  have "fst (bnd_st (mapM_st f xs) (\<lambda>ys. return_st (Inr (y # ys))) s) =
      bnd (mapM g xs) (\<lambda>ys. Inr (y # ys))" for y s
    by (rule fst_bnd_st) (simp_all add: Cons.IH)
  then show ?case using assms by (simp add: fst_bnd_st)
qed

lemma fst_accumulate:
  "fst (bnd_st (alloc (Reals z)) (\<lambda>densities_l.
     bnd_st (index_add_inplace densities_l index source) (\<lambda>_.
     bnd_st (load_reals densities_l) (\<lambda>t. return_st (g t)))) s) =
   bnd (index_add z index source) g"
  by (cases "index_add z index source")
    (simp_all add: bnd_st_def bnd_def alloc_def index_add_inplace_def load_reals_def load_def
      return_st_def)

lemma fst_densities_l_alchemical_st:
  "fst (densities_l_alchemical_st n_centers density_indices expanded_vectors l s) =
     densities_l_alchemical n_centers density_indices expanded_vectors l"
  unfolding densities_l_alchemical_st_def densities_l_alchemical_def Let_def
  by (rule fst_bnd_st) (simp_all add: fst_accumulate)

lemma fst_densities_l_standard_st:
  "fst (densities_l_standard_st n_centers n_species density_indices expanded_vectors l s) =
     densities_l_standard n_centers n_species density_indices expanded_vectors l"
  unfolding densities_l_standard_st_def densities_l_standard_def Let_def
  by (rule fst_bnd_st) (simp_all add: fst_accumulate)

lemma fst_alloc_bnd:
  assumes "\<And>x s. fst (f x s) = r"
  shows "fst (bnd_st (alloc v) f s) = r"
  using assms by (simp add: bnd_st_def alloc_def)

lemma fst_densities_st:
  "fst (densities_st c b expanded_vectors s) = densities c b expanded_vectors"
proof -
  have alch: "fst (bnd_st (return_st (s_i_metadata_to_unique b)) (\<lambda>density_indices.
       mapM_st (densities_l_alchemical_st n density_indices expanded_vectors) ls) s) =
     bnd (s_i_metadata_to_unique b) (\<lambda>density_indices.
       mapM (densities_l_alchemical n density_indices expanded_vectors) ls)" for n ls s
    by (rule fst_bnd_st) (simp_all add: fst_mapM_st fst_densities_l_alchemical_st)
  have std: "fst (bnd_st (return_st (density_indices_standard c b smp)) (\<lambda>density_indices.
       mapM_st (densities_l_standard_st n k density_indices expanded_vectors) ls) s) =
     bnd (density_indices_standard c b smp) (\<lambda>density_indices.
       mapM (densities_l_standard n k density_indices expanded_vectors) ls)" for n k ls s smp
    by (rule fst_bnd_st) (simp_all add: fst_mapM_st fst_densities_l_standard_st)
  have inner: "fst (bnd_st (return_st (stack_last [structure_centers b, centers b] RuntimeError))
       (\<lambda>unique_s_i_indices.
         if is_alchemical c then
           bnd_st (return_st (s_i_metadata_to_unique b)) (\<lambda>density_indices.
           mapM_st (densities_l_alchemical_st (length (centers b)) density_indices expanded_vectors)
             [0..<l_max c + 1])
         else
           bnd_st (return_st (density_indices_standard c b smp)) (\<lambda>density_indices.
           mapM_st (densities_l_standard_st (length (centers b)) (length (all_species c))
               density_indices expanded_vectors)
             [0..<l_max c + 1])) s) =
     bnd (stack_last [structure_centers b, centers b] RuntimeError) (\<lambda>unique_s_i_indices.
         if is_alchemical c then
           bnd (s_i_metadata_to_unique b) (\<lambda>density_indices.
           mapM (densities_l_alchemical (length (centers b)) density_indices expanded_vectors)
             [0..<l_max c + 1])
         else
           bnd (density_indices_standard c b smp) (\<lambda>density_indices.
           mapM (densities_l_standard (length (centers b)) (length (all_species c))
               density_indices expanded_vectors)
             [0..<l_max c + 1]))" for smp s
  proof (cases "is_alchemical c")
    case True
    then show ?thesis
      by (simp only: if_True) (rule fst_bnd_st, simp, rule alch)
  next
    case False
    then show ?thesis
      by (simp only: if_False) (rule fst_bnd_st, simp, rule std)
  qed
  show ?thesis
    unfolding densities_st_def densities_def Let_def
    by (rule fst_bnd_st) (simp_all only: fst_return_st fst_alloc_bnd inner)
qed

lemma snd_load_batch: "snd (load_batch r s) = s"
  by (auto simp: load_batch_def load_ints_def load_pairs_def load_shifts_def load_vectors_def
      bnd_st_def load_def return_st_def split: sum.splits cell.splits prod.splits)

lemma load_batch_species:
  assumes "fst (load_batch r s) = Inr b"
  shows "species_ref r < length s" and "s ! species_ref r = Ints (species b)"
  using assms
  by (auto simp: load_batch_def load_ints_def load_pairs_def load_shifts_def load_vectors_def
      bnd_st_def load_def return_st_def split: sum.splits cell.splits prod.splits if_splits)

text \<open>On references \<open>forward\<close> returns what it returns on the tensors that the references
  hold, and raises what it raises there.\<close>

lemma forward_st_result:
  assumes "fst (load_batch r s) = Inr b"
  shows "fst (forward_st c r s) = forward c b"
proof -
  have lb: "load_batch r s = (Inr b, s)"
    using assms snd_load_batch [of r s] by (metis prod.collapse)
  show ?thesis
  proof (cases "vector_expansion c b")
    case (Inl e)
    then show ?thesis
      by (simp add: forward_st_def forward_def bnd_st_def bnd_def lb return_st_def)
  next
    case ev: (Inr ev)
    obtain rd s3 where d: "densities_st c b ev s = (rd, s3)" by (cases "densities_st c b ev s")
    have rd: "rd = densities c b ev" using fst_densities_st [of c b ev s] d by simp
    have fr: "length s \<le> length s3" "take (length s) s3 = s"
      using frame_densities_st [of "length s" c b ev] d by (auto simp: frame_def dest!: spec [of _ s])
    have "s3 ! species_ref r = take (length s) s3 ! species_ref r"
      using load_batch_species(1) [OF assms] by simp
    then have sp: "s3 ! species_ref r = Ints (species b)"
      using fr(2) load_batch_species(2) [OF assms] by simp
    have lt: "species_ref r < length s3" using load_batch_species(1) [OF assms] fr(1) by simp
    have li: "load_ints (species_ref r) s3 = (Inr (species b), s3)"
      using sp lt by (simp add: load_ints_def bnd_st_def load_def return_st_def)
    show ?thesis
    proof (cases rd)
      case (Inl e)
      then show ?thesis
        using ev d rd
        by (simp add: forward_st_def forward_def density_aggregator_def bnd_st_def bnd_def lb
            return_st_def)
    next
      case (Inr dens)
      then show ?thesis
        using ev d rd li
        by (cases "mapM (blocks_l c b dens ev) [0..<l_max c + 1]")
          (simp_all add: forward_st_def forward_def density_aggregator_def bnd_st_def bnd_def lb
            return_st_def del: upt_Suc)
    qed
  qed
qed

lemma forward_st_h2:
  "fst (load_batch h2_refs h2_store) = Inr h2_alone \<and>
   length (snd (forward_st standard_calculator h2_refs h2_store)) = 10 \<and>
   snd (forward_st standard_calculator h2_refs h2_store) ! 9 =
     Reals \<lparr>shape3 = (4, 1, 1), rows3 = [[[1]], [[0]], [[1]], [[0]]]\<rparr> \<and>
   block_rows (fst (forward_st standard_calculator h2_refs h2_store)) =
     Inr [[[[1, 0]], [[1, 0]]], []]"
  by code_simp

lemma fst_bnd_st_same:
  assumes "snd (m s) = s"
  shows "fst (bnd_st m f s) = bnd (fst (m s)) (\<lambda>x. fst (f x s))"
proof -
  obtain r' where "m s = (r', s)" using assms by (metis prod.collapse)
  then show ?thesis by (cases r') (simp_all add: bnd_st_def bnd_def)
qed

lemma snd_load_ints [simp]: "snd (load_ints a s) = s"
  by (simp add: load_ints_def load_def bnd_st_def return_st_def)

lemma snd_load_pairs [simp]: "snd (load_pairs a s) = s"
  by (simp add: load_pairs_def load_def bnd_st_def return_st_def)

lemma snd_load_shifts [simp]: "snd (load_shifts a s) = s"
  by (simp add: load_shifts_def load_def bnd_st_def return_st_def)

lemma snd_load_vectors [simp]: "snd (load_vectors a s) = s"
  by (simp add: load_vectors_def load_def bnd_st_def return_st_def)

lemma load_ints_append:
  assumes "fst (load_ints a s) = Inr v"
  shows "fst (load_ints a (s @ t)) = Inr v"
  using assms
  by (auto simp: load_ints_def load_def bnd_st_def return_st_def nth_append
      split: if_splits cell.splits)

lemma load_pairs_append:
  assumes "fst (load_pairs a s) = Inr v"
  shows "fst (load_pairs a (s @ t)) = Inr v"
  using assms
  by (auto simp: load_pairs_def load_def bnd_st_def return_st_def nth_append
      split: if_splits cell.splits)

lemma load_shifts_append:
  assumes "fst (load_shifts a s) = Inr v"
  shows "fst (load_shifts a (s @ t)) = Inr v"
  using assms
  by (auto simp: load_shifts_def load_def bnd_st_def return_st_def nth_append
      split: if_splits cell.splits)

lemma load_vectors_append:
  assumes "fst (load_vectors a s) = Inr v"
  shows "fst (load_vectors a (s @ t)) = Inr v"
  using assms
  by (auto simp: load_vectors_def load_def bnd_st_def return_st_def nth_append
      split: if_splits cell.splits)

lemma fst_load_batch:
  "fst (load_batch r s) =
     bnd (fst (load_ints (species_ref r) s)) (\<lambda>sp.
     bnd (fst (load_shifts (cell_shifts_ref r) s)) (\<lambda>cs.
     bnd (fst (load_ints (centers_ref r) s)) (\<lambda>ce.
     bnd (fst (load_pairs (pairs_ref r) s)) (\<lambda>pa.
     bnd (fst (load_ints (structure_centers_ref r) s)) (\<lambda>sc.
     bnd (fst (load_ints (structure_pairs_ref r) s)) (\<lambda>sp'.
     bnd (fst (load_vectors (direction_vectors_ref r) s)) (\<lambda>dv.
     Inr \<lparr>species = sp, cell_shifts = cs, centers = ce, pairs = pa,
          structure_centers = sc, structure_pairs = sp',
          direction_vectors = dv\<rparr>)))))))"
  unfolding load_batch_def by (simp add: fst_bnd_st_same)

lemma load_batch_append:
  assumes "fst (load_batch r s) = Inr b"
  shows "fst (load_batch r (s @ t)) = Inr b"
proof -
  from assms obtain sp cs ce pa sc sp' dv where
    l: "fst (load_ints (species_ref r) s) = Inr sp"
      "fst (load_shifts (cell_shifts_ref r) s) = Inr cs"
      "fst (load_ints (centers_ref r) s) = Inr ce"
      "fst (load_pairs (pairs_ref r) s) = Inr pa"
      "fst (load_ints (structure_centers_ref r) s) = Inr sc"
      "fst (load_ints (structure_pairs_ref r) s) = Inr sp'"
      "fst (load_vectors (direction_vectors_ref r) s) = Inr dv"
    and b: "b = \<lparr>species = sp, cell_shifts = cs, centers = ce, pairs = pa,
          structure_centers = sc, structure_pairs = sp', direction_vectors = dv\<rparr>"
    unfolding fst_load_batch by (auto simp: bnd_eq_Inr)
  show ?thesis
    unfolding fst_load_batch [of r "s @ t"]
    by (simp add: l(1) [THEN load_ints_append] l(2) [THEN load_shifts_append]
        l(3) [THEN load_ints_append] l(4) [THEN load_pairs_append]
        l(5) [THEN load_ints_append] l(6) [THEN load_ints_append]
        l(7) [THEN load_vectors_append] b bnd_def)
qed

text \<open>
  C10. Whatever the store, the references and the calculator, and whether \<open>forward\<close>
  returns or raises: the tensors that the store held before the call are in the store after
  the call, unchanged and at their positions; and when the seven references held a batch
  before the call, they hold the same batch after it. The writes of \<open>index_add_\<close> go to the
  tensors that \<open>torch.zeros\<close> has allocated during the call, and the clones of lines 136 and
  137 are new tensors.
\<close>

theorem forward_keeps_inputs:
  "take (length s) (snd (forward_st c r s)) = s \<and>
   (\<forall>b. fst (load_batch r s) = Inr b \<longrightarrow>
      fst (load_batch r (snd (forward_st c r s))) = Inr b)"
proof -
  have "frame (length s) (forward_st c r)" by (rule frame_forward_st)
  then have 1: "take (length s) (snd (forward_st c r s)) = s" by (simp add: frame_def)
  then have 2: "snd (forward_st c r s) = s @ drop (length s) (snd (forward_st c r s))"
    by (metis append_take_drop_id)
  have "fst (load_batch r (snd (forward_st c r s))) = Inr b"
    if "fst (load_batch r s) = Inr b" for b
    using load_batch_append [OF that, of "drop (length s) (snd (forward_st c r s))"] 2 by simp
  with 1 show ?thesis by simp
qed

theorem forward_keeps_inputs_witness:
  "take 7 (snd (forward_st standard_calculator h2_refs h2_store)) = h2_store \<and>
   fst (load_batch h2_refs (snd (forward_st standard_calculator h2_refs h2_store))) = Inr h2_alone"
proof -
  have l: "length h2_store = 7" by (simp add: h2_store_def)
  have b: "fst (load_batch h2_refs h2_store) = Inr h2_alone" by code_simp
  from forward_keeps_inputs [of h2_store standard_calculator h2_refs] l b show ?thesis
    by simp
qed

end
